theory Spec2Isabelle
  imports Main "HOL-Library.Word"
begin

unbundle bit_operations_syntax

section \<open>The keyring of dbus-keyring.c\<close>

text \<open>
  A shallow embedding of \<^verbatim>\<open>dbus/dbus-keyring.c\<close>: the advisory lock, the generation of
  a new key, the reload of the key file (decode, expiry filter, encode, save) and the
  choice of the key for a new challenge.

  Integers: \<^verbatim>\<open>dbus_int32_t\<close> and \<^verbatim>\<open>int\<close> are \<open>32 word\<close>, read with \<open>sint\<close>;
  \<^verbatim>\<open>long\<close> (time stamps, parsed numbers) is \<open>int\<close>, the C arithmetic on it being
  undefined where it would overflow. A \<^verbatim>\<open>DBusString\<close> holding text is a \<open>string\<close>
  (a list of 8-bit characters), one holding raw bytes an \<open>8 word list\<close>.
\<close>

subsection \<open>Constants\<close>

definition NEW_KEY_TIMEOUT_SECONDS :: int where
  "NEW_KEY_TIMEOUT_SECONDS = 60 * 5"

definition EXPIRE_KEYS_TIMEOUT_SECONDS :: int where
  "EXPIRE_KEYS_TIMEOUT_SECONDS = NEW_KEY_TIMEOUT_SECONDS + 60 * 2"

definition MAX_TIME_TRAVEL_SECONDS :: int where
  "MAX_TIME_TRAVEL_SECONDS = 60 * 5"

definition MAX_LOCK_TIMEOUTS :: nat where
  "MAX_LOCK_TIMEOUTS = 32"

definition LOCK_TIMEOUT_MILLISECONDS :: nat where
  "LOCK_TIMEOUT_MILLISECONDS = 250"

definition KEY_LENGTH_BYTES :: nat where
  "KEY_LENGTH_BYTES = 24"

definition DBUS_INT_MAX :: int where
  "DBUS_INT_MAX = 2147483647"

subsection \<open>Data\<close>

type_synonym byte = "8 word"

text \<open>\<^verbatim>\<open>DBusKey\<close>; the field \<^verbatim>\<open>id\<close> is \<open>key_id\<close> here (\<open>id\<close> is the identity of HOL).\<close>

record DBusKey =
  key_id :: "32 word"
  creation_time :: int
  secret :: "byte list"

text \<open>\<^verbatim>\<open>struct DBusKeyring\<close>; \<^verbatim>\<open>n_keys\<close> is the length of \<open>keys\<close>.\<close>

record DBusKeyring =
  refcount :: int
  directory :: string
  filename :: string
  filename_lock :: string
  keys :: "DBusKey list"

text \<open>
  \<^verbatim>\<open>DBUS_ERROR_NO_MEMORY\<close>, \<^verbatim>\<open>DBUS_ERROR_FAILED\<close>, a failed \<^verbatim>\<open>_dbus_assert\<close>,
  and a failure return that leaves the \<^verbatim>\<open>DBusError\<close> unset.
\<close>

datatype error = NoMemory | Failed | AssertionFailed | ErrorNotSet

subsection \<open>The world outside: files, clock, memory, randomness\<close>

text \<open>
  Modelled from the spec: the primitives of \<^verbatim>\<open>dbus-sysdeps\<close> (exclusive create, delete,
  read-whole-file, atomic save, sleep, clock, random bytes, directory creation) and the
  allocator are missing; the spec gives them "only at their interface". Each
  is a step on an explicit world. Whether a primitive succeeds is not in the hands of
  this process (other processes share the lock file, memory runs out), so the world
  carries, per primitive, the script of the outcomes of its successive calls; a script
  that has run out answers failure. What the process does to the file system is
  recorded in \<open>trace\<close>, oldest event first.
\<close>

datatype event =
  EvCreateExcl string bool
| EvDelete string bool
| EvSleep nat
| EvSave string string bool
| EvCreateDirectory string

record world =
  clock_ms :: int
  data_file :: "string option"
  allocs :: "bool list"
  creates :: "bool list"
  deletes :: "bool list"
  saves :: "bool list"
  random_source :: "byte list"
  trace :: "event list"

fun next_outcome :: "bool list \<Rightarrow> bool \<times> bool list" where
  "next_outcome [] = (False, [])"
| "next_outcome (b # bs) = (b, bs)"

text \<open>One allocation (\<^verbatim>\<open>dbus_realloc\<close>, \<^verbatim>\<open>_dbus_string_init\<close>, a growing string).\<close>

definition alloc :: "world \<Rightarrow> bool \<times> world" where
  "alloc w = (let (ok, rest) = next_outcome (allocs w) in (ok, w\<lparr>allocs := rest\<rparr>))"

text \<open>\<^verbatim>\<open>_dbus_create_file_exclusively\<close>.\<close>

definition create_file_exclusively :: "string \<Rightarrow> world \<Rightarrow> bool \<times> world" where
  "create_file_exclusively name w =
     (let (ok, rest) = next_outcome (creates w)
      in (ok, w\<lparr>creates := rest, trace := trace w @ [EvCreateExcl name ok]\<rparr>))"

text \<open>\<^verbatim>\<open>_dbus_delete_file\<close>.\<close>

definition delete_file :: "string \<Rightarrow> world \<Rightarrow> bool \<times> world" where
  "delete_file name w =
     (let (ok, rest) = next_outcome (deletes w)
      in (ok, w\<lparr>deletes := rest, trace := trace w @ [EvDelete name ok]\<rparr>))"

text \<open>\<^verbatim>\<open>_dbus_sleep_milliseconds\<close>.\<close>

definition sleep_milliseconds :: "nat \<Rightarrow> world \<Rightarrow> world" where
  "sleep_milliseconds ms w = w\<lparr>clock_ms := clock_ms w + int ms, trace := trace w @ [EvSleep ms]\<rparr>"

text \<open>\<^verbatim>\<open>_dbus_get_current_time\<close>, the seconds.\<close>

definition get_current_time :: "world \<Rightarrow> int" where
  "get_current_time w = clock_ms w div 1000"

text \<open>\<^verbatim>\<open>_dbus_file_get_contents\<close> of the key file: \<open>None\<close> is any result but success.\<close>

definition file_get_contents :: "world \<Rightarrow> string option" where
  "file_get_contents w = data_file w"

text \<open>\<^verbatim>\<open>_dbus_string_save_to_file\<close>: the file is replaced as a whole, or not at all.\<close>

definition string_save_to_file :: "string \<Rightarrow> string \<Rightarrow> world \<Rightarrow> bool \<times> world" where
  "string_save_to_file contents name w =
     (let (ok, rest) = next_outcome (saves w)
      in (ok, w\<lparr>saves := rest,
                 data_file := (if ok then Some contents else data_file w),
                 trace := trace w @ [EvSave name contents ok]\<rparr>))"

text \<open>
  \<^verbatim>\<open>_dbus_generate_random_bytes\<close>: the next \<open>n\<close> bytes of the source, or failure when
  the source cannot deliver them.
\<close>

definition generate_random_bytes :: "nat \<Rightarrow> world \<Rightarrow> byte list option \<times> world" where
  "generate_random_bytes n w =
     (if length (random_source w) < n then (None, w)
      else (Some (take n (random_source w)), w\<lparr>random_source := drop n (random_source w)\<rparr>))"


subsection \<open>The advisory lock\<close>

text \<open>
  The loop of \<^verbatim>\<open>_dbus_keyring_lock\<close>; the result is \<^verbatim>\<open>n_timeouts\<close> when the loop is
  left (by \<^verbatim>\<open>break\<close> or by its condition).
\<close>

function lock_loop :: "DBusKeyring \<Rightarrow> nat \<Rightarrow> world \<Rightarrow> nat \<times> world" where
  "lock_loop keyring n_timeouts w =
     (if n_timeouts < MAX_LOCK_TIMEOUTS then
        (let (ok, w1) = create_file_exclusively (filename_lock keyring) w
         in if ok then (n_timeouts, w1)
            else lock_loop keyring (Suc n_timeouts)
                   (sleep_milliseconds LOCK_TIMEOUT_MILLISECONDS w1))
      else (n_timeouts, w))"
  by pat_completeness auto
termination
  by (relation "measure (\<lambda>(keyring, n_timeouts, w). MAX_LOCK_TIMEOUTS - n_timeouts)") auto

declare lock_loop.simps [simp del]

definition dbus_keyring_lock :: "DBusKeyring \<Rightarrow> world \<Rightarrow> bool \<times> world" where
  "dbus_keyring_lock keyring w =
     (let (n_timeouts, w1) = lock_loop keyring 0 w
      in if n_timeouts = MAX_LOCK_TIMEOUTS then
           (let (deleted, w2) = delete_file (filename_lock keyring) w1
            in if \<not> deleted then (False, w2)
               else (let (created, w3) = create_file_exclusively (filename_lock keyring) w2
                     in if \<not> created then (False, w3) else (True, w3)))
         else (True, w1))"

text \<open>\<^verbatim>\<open>_dbus_keyring_unlock\<close>: a delete that fails is warned about, nothing more.\<close>

definition dbus_keyring_unlock :: "DBusKeyring \<Rightarrow> world \<Rightarrow> world" where
  "dbus_keyring_unlock keyring w = snd (delete_file (filename_lock keyring) w)"

subsection \<open>A new key\<close>

fun find_key_by_id :: "DBusKey list \<Rightarrow> 32 word \<Rightarrow> DBusKey option" where
  "find_key_by_id [] i = None"
| "find_key_by_id (k # ks) i = (if key_id k = i then Some k else find_key_by_id ks i)"

text \<open>
  \<^verbatim>\<open>id = s[0] | (s[1] << 8) | (s[2] << 16) | (s[3] << 24); if (id < 0) id = - id;\<close>
  on 32-bit integers that wrap around. The four bytes are those just drawn.
\<close>

definition id_of_bytes :: "byte list \<Rightarrow> 32 word" where
  "id_of_bytes s =
     (ucast (s ! 0) OR push_bit 8 (ucast (s ! 1)) OR push_bit 16 (ucast (s ! 2))
        OR push_bit 24 (ucast (s ! 3)))"

definition new_key_id :: "byte list \<Rightarrow> 32 word" where
  "new_key_id s = (let i = id_of_bytes s in if sint i < 0 then - i else i)"

text \<open>
  The \<^verbatim>\<open>retry:\<close> loop of \<^verbatim>\<open>add_new_key\<close>: draw four bytes, make the id, check the
  assertion \<^verbatim>\<open>id >= 0\<close>, and draw again while a key of the list has that id. The
  random source of a world is finite and each round uses up four of its bytes, so the
  recursion ends: with an id, or with the failure of the draw once the source is dry.
\<close>

function generate_id :: "DBusKey list \<Rightarrow> world \<Rightarrow> (error + 32 word) \<times> world" where
  "generate_id ks w =
     (case generate_random_bytes 4 w of
        (None, w1) \<Rightarrow> (Inl NoMemory, w1)
      | (Some s, w1) \<Rightarrow>
          (let i = new_key_id s
           in if \<not> (0 \<le> sint i) then (Inl AssertionFailed, w1)
              else if find_key_by_id ks i \<noteq> None then generate_id ks w1
              else (Inr i, w1)))"
  by pat_completeness auto
termination
  by (relation "measure (\<lambda>(ks, w). length (random_source w))")
     (auto simp: generate_random_bytes_def split: if_splits)

declare generate_id.simps [simp del]

definition add_new_key :: "DBusKey list \<Rightarrow> world \<Rightarrow> (error + DBusKey list) \<times> world" where
  "add_new_key ks w =
     (let (ok, w1) = alloc w
      in if \<not> ok then (Inl NoMemory, w1)
         else
           (case generate_id ks w1 of
              (Inl e, w2) \<Rightarrow> (Inl e, w2)
            | (Inr i, w2) \<Rightarrow>
                (case generate_random_bytes KEY_LENGTH_BYTES w2 of
                   (None, w3) \<Rightarrow> (Inl NoMemory, w3)
                 | (Some bytes, w3) \<Rightarrow>
                     (let (ok_realloc, w4) = alloc w3
                      in if \<not> ok_realloc then (Inl NoMemory, w4)
                         else
                           (let (ok_init, w5) = alloc w4
                            in if \<not> ok_init then (Inl NoMemory, w5)
                               else
                                 (let timestamp = get_current_time w5;
                                      (ok_move, w6) = alloc w5
                                  in if \<not> ok_move then (Inl NoMemory, w6)
                                     else (Inr (ks @ [\<lparr>key_id = i, creation_time = timestamp,
                                                        secret = bytes\<rparr>]), w6)))))))"

subsection \<open>The string helpers\<close>

text \<open>
  Modelled from the spec: the functions of \<^verbatim>\<open>dbus-string.c\<close> that the keyring calls
  are missing (the spec lists "generic string/byte-buffer utilities" as external). Each
  is modelled under the name of the C function without its prefix; first the character
  classes and digit values they share.
\<close>

definition is_digit :: "char \<Rightarrow> bool" where
  "is_digit c = (48 \<le> (of_char c :: nat) \<and> (of_char c :: nat) \<le> 57)"

definition digit_val :: "char \<Rightarrow> nat" where
  "digit_val c = of_char c - 48"

definition digit_char :: "nat \<Rightarrow> char" where
  "digit_char d = ''0123456789'' ! d"

definition digits_val :: "string \<Rightarrow> nat" where
  "digits_val ds = foldl (\<lambda>a c. 10 * a + digit_val c) 0 ds"

definition is_blank :: "char \<Rightarrow> bool" where
  "is_blank c = (c = CHR '' '' \<or> c = CHR 0x09)"

text \<open>
  Modelled from the spec: \<^verbatim>\<open>_dbus_string_parse_int\<close> is missing; the spec has "a line
  that fails to parse an integer ID, fails to parse a timestamp". An optional sign and at
  least one decimal digit, read from index \<open>start\<close>; the result is the number and the
  index after its last digit, \<open>None\<close> when there is no digit.
\<close>

definition parse_int :: "string \<Rightarrow> nat \<Rightarrow> (int \<times> nat) option" where
  "parse_int str start =
     (let rest = drop start str;
          negative = (case rest of [] \<Rightarrow> False | c # cs \<Rightarrow> c = CHR ''-'');
          sign_len = (case rest of [] \<Rightarrow> 0 | c # cs \<Rightarrow> if c = CHR ''-'' \<or> c = CHR ''+'' then 1 else 0);
          ds = takeWhile is_digit (drop sign_len rest)
      in if ds = [] then None
         else Some (if negative then - int (digits_val ds) else int (digits_val ds),
                    start + sign_len + length ds))"

text \<open>
  Modelled from the spec: \<^verbatim>\<open>_dbus_string_skip_blank\<close> is missing; the spec has "fields
  separated by blank characters". The index of the first character from \<open>start\<close> on that is
  neither a space nor a tab.
\<close>

definition skip_blank :: "string \<Rightarrow> nat \<Rightarrow> nat" where
  "skip_blank str start = start + length (takeWhile is_blank (drop start str))"

text \<open>
  Modelled from the spec: \<^verbatim>\<open>_dbus_string_pop_line\<close> is missing; the spec has "one key per
  line" and "line splitting". \<open>None\<close> when the buffer is empty; else the text before the
  first newline (or all of it), and the buffer after that newline.
\<close>

definition pop_line :: "string \<Rightarrow> (string \<times> string) option" where
  "pop_line source =
     (if source = [] then None
      else Some (takeWhile (\<lambda>c. c \<noteq> CHR 0x0A) source,
                 drop 1 (dropWhile (\<lambda>c. c \<noteq> CHR 0x0A) source)))"

text \<open>
  Modelled from the spec: \<^verbatim>\<open>_dbus_string_validate_ascii\<close> is missing; the spec has "pure
  7-bit ASCII", "embedded NUL included" among what is rejected, and the source's test
  accepts byte \<^verbatim>\<open>0x7f\<close> and rejects \<^verbatim>\<open>0x80\<close> and NUL.
\<close>

definition validate_ascii :: "string \<Rightarrow> bool" where
  "validate_ascii str = list_all (\<lambda>c. 0 < (of_char c :: nat) \<and> (of_char c :: nat) < 128) str"

text \<open>
  Modelled from the spec: \<^verbatim>\<open>_dbus_string_append_int\<close> is missing; the spec has "append
  \<^verbatim>\<open>id\<close>" in a text format of integers. The decimal digits, after a minus sign for a
  negative number.
\<close>

fun dec_digits :: "nat \<Rightarrow> string" where
  "dec_digits n =
     (if n < 10 then [digit_char n] else dec_digits (n div 10) @ [digit_char (n mod 10)])"

declare dec_digits.simps [simp del]

definition show_int :: "int \<Rightarrow> string" where
  "show_int v = (if v < 0 then CHR ''-'' # dec_digits (nat (- v)) else dec_digits (nat v))"

text \<open>
  Modelled from the spec: \<^verbatim>\<open>_dbus_string_hex_encode\<close> and \<^verbatim>\<open>_dbus_string_hex_decode\<close>
  are missing; the spec has "the hex encoding of \<^verbatim>\<open>secret\<close>" and "interpret pairs of hex
  digits into raw bytes". Two digits a byte, the high half first; decoding accepts both
  cases of a letter and fails on any other character and on a digit without its pair.
\<close>

definition hex_digit :: "nat \<Rightarrow> char" where
  "hex_digit n = ''0123456789abcdef'' ! n"

definition hex_encode :: "byte list \<Rightarrow> string" where
  "hex_encode bs = concat (map (\<lambda>b. [hex_digit (unat b div 16), hex_digit (unat b mod 16)]) bs)"

definition hex_val :: "char \<Rightarrow> nat option" where
  "hex_val c =
     (let n = (of_char c :: nat)
      in if 48 \<le> n \<and> n \<le> 57 then Some (n - 48)
         else if 97 \<le> n \<and> n \<le> 102 then Some (n - 87)
         else if 65 \<le> n \<and> n \<le> 70 then Some (n - 55)
         else None)"

fun hex_decode_chars :: "string \<Rightarrow> byte list option" where
  "hex_decode_chars [] = Some []"
| "hex_decode_chars [c] = None"
| "hex_decode_chars (c1 # c2 # cs) =
     (case (hex_val c1, hex_val c2) of
        (Some h, Some l) \<Rightarrow>
          (case hex_decode_chars cs of
             None \<Rightarrow> None
           | Some bs \<Rightarrow> Some (word_of_nat (16 * h + l) # bs))
      | _ \<Rightarrow> None)"

text \<open>
  Modelled from the spec: the same missing functions as the reload calls them, where
  each may fail for lack of memory ("allocation/buffer failures"), which is one
  allocation of the world's script.
\<close>

definition string_append :: "string \<Rightarrow> string \<Rightarrow> world \<Rightarrow> string option \<times> world" where
  "string_append str t w = (let (ok, w1) = alloc w in if ok then (Some (str @ t), w1) else (None, w1))"

definition string_append_int :: "string \<Rightarrow> int \<Rightarrow> world \<Rightarrow> string option \<times> world" where
  "string_append_int str v w = string_append str (show_int v) w"

definition string_append_byte :: "string \<Rightarrow> char \<Rightarrow> world \<Rightarrow> string option \<times> world" where
  "string_append_byte str c w = string_append str [c] w"

definition string_hex_encode :: "byte list \<Rightarrow> string \<Rightarrow> world \<Rightarrow> string option \<times> world" where
  "string_hex_encode bs dest w = string_append dest (hex_encode bs) w"

definition string_hex_decode :: "string \<Rightarrow> nat \<Rightarrow> world \<Rightarrow> byte list option \<times> world" where
  "string_hex_decode str start w =
     (let (ok, w1) = alloc w
      in if ok then (hex_decode_chars (drop start str), w1) else (None, w1))"


subsection \<open>Reload: decoding the file\<close>

text \<open>
  The first half of the body of the loop over the lines, down to the comment
  \<^verbatim>\<open>/* We have all three parts */\<close>: \<open>None\<close> where the source says \<^verbatim>\<open>continue\<close>, else
  the id, the time stamp and the index \<^verbatim>\<open>next\<close> where the secret starts.
\<close>

definition parse_key_line :: "int \<Rightarrow> string \<Rightarrow> (32 word \<times> int \<times> nat) option" where
  "parse_key_line now line =
     (case parse_int line 0 of
        None \<Rightarrow> None
      | Some (val, next1) \<Rightarrow>
          if val > DBUS_INT_MAX \<or> val < 0 then None
          else
            (let i = (word_of_int val :: 32 word);
                 next2 = skip_blank line next1
             in case parse_int line next2 of
                  None \<Rightarrow> None
                | Some (timestamp, next3) \<Rightarrow>
                    if timestamp < 0 \<or>
                       (now + MAX_TIME_TRAVEL_SECONDS) < timestamp \<or>
                       (now - EXPIRE_KEYS_TIMEOUT_SECONDS) > timestamp
                    then None
                    else
                      (let next4 = skip_blank line next3;
                           len = length line
                       in if int len - int next4 = 0 then None
                          else Some (i, timestamp, next4))))"

text \<open>
  The whole body: the result \<open>Inr\<close> is the key list after the line (unchanged where the
  source says \<^verbatim>\<open>continue\<close>), \<open>Inl\<close> is a \<^verbatim>\<open>goto out\<close> with the error set.
\<close>

definition load_line :: "int \<Rightarrow> string \<Rightarrow> DBusKey list \<Rightarrow> world \<Rightarrow> (error + DBusKey list) \<times> world" where
  "load_line now line ks w =
     (case parse_key_line now line of
        None \<Rightarrow> (Inr ks, w)
      | Some (i, timestamp, next4) \<Rightarrow>
          (let (ok_realloc, w1) = alloc w
           in if \<not> ok_realloc then (Inl NoMemory, w1)
              else
                (let (ok_init, w2) = alloc w1
                 in if \<not> ok_init then (Inl NoMemory, w2)
                    else
                      (case string_hex_decode line next4 w2 of
                         (None, w3) \<Rightarrow> (Inl NoMemory, w3)
                       | (Some s, w3) \<Rightarrow>
                           (Inr (ks @ [\<lparr>key_id = i, creation_time = timestamp,
                                        secret = s\<rparr>]), w3)))))"

text \<open>\<^verbatim>\<open>while (_dbus_string_pop_line (&contents, &line))\<close>.\<close>

function load_keys :: "int \<Rightarrow> string \<Rightarrow> DBusKey list \<Rightarrow> world \<Rightarrow> (error + DBusKey list) \<times> world" where
  "load_keys now contents ks w =
     (case pop_line contents of
        None \<Rightarrow> (Inr ks, w)
      | Some (line, rest) \<Rightarrow>
          (case load_line now line ks w of
             (Inl e, w1) \<Rightarrow> (Inl e, w1)
           | (Inr ks1, w1) \<Rightarrow> load_keys now rest ks1 w1))"
  by pat_completeness auto
termination
proof (relation "measure (\<lambda>(now, contents, ks, w). length contents)", goal_cases)
  case 1
  show ?case by simp
next
  case (2 now contents ks w x2 line rest x y ks1)
  have "length (dropWhile (\<lambda>c. c \<noteq> CHR 0x0A) contents) \<le> length contents"
    by (rule length_dropWhile_le)
  with 2 show ?case
    by (cases contents) (auto simp: pop_line_def split: if_splits)
qed

declare load_keys.simps [simp del]

subsection \<open>Reload: encoding the keys\<close>

definition and_then :: "'a option \<times> world \<Rightarrow> ('a \<Rightarrow> world \<Rightarrow> 'b option \<times> world) \<Rightarrow> 'b option \<times> world" where
  "and_then r f = (case r of (None, w) \<Rightarrow> (None, w) | (Some x, w) \<Rightarrow> f x w)"

text \<open>One round of the loop that writes the keys: \<open>None\<close> is \<^verbatim>\<open>goto nomem\<close>.\<close>

definition encode_key :: "DBusKey \<Rightarrow> string \<Rightarrow> world \<Rightarrow> string option \<times> world" where
  "encode_key k contents w =
     and_then (and_then (and_then (and_then (and_then
       (string_append_int contents (sint (key_id k)) w)
       (\<lambda>c. string_append_byte c CHR '' ''))
       (\<lambda>c. string_append_int c (creation_time k)))
       (\<lambda>c. string_append_byte c CHR '' ''))
       (\<lambda>c. string_hex_encode (secret k) c))
       (\<lambda>c. string_append_byte c CHR 0x0A)"

fun encode_keys :: "DBusKey list \<Rightarrow> string \<Rightarrow> world \<Rightarrow> string option \<times> world" where
  "encode_keys [] contents w = (Some contents, w)"
| "encode_keys (k # ks) contents w =
     (case encode_key k contents w of
        (None, w1) \<Rightarrow> (None, w1)
      | (Some c1, w1) \<Rightarrow> encode_keys ks c1 w1)"

subsection \<open>Reload\<close>

text \<open>
  The buffer the loop over the lines starts from: the contents of the key file, nothing
  if the file cannot be read ("continue with empty keyring file"), and nothing if the
  contents are not ASCII.
\<close>

definition read_contents :: "world \<Rightarrow> string" where
  "read_contents w =
     (let contents0 = (case file_get_contents w of None \<Rightarrow> [] | Some c \<Rightarrow> c)
      in if \<not> validate_ascii contents0 then [] else contents0)"

text \<open>
  From \<^verbatim>\<open>_dbus_file_get_contents\<close> to the save: the candidate key list the reload has
  built when it reaches \<^verbatim>\<open>dbus_free (keyring->keys)\<close>, or the error of a \<^verbatim>\<open>goto out\<close>.
\<close>

definition reload_keys :: "DBusKeyring \<Rightarrow> bool \<Rightarrow> int \<Rightarrow> world \<Rightarrow> (error + DBusKey list) \<times> world" where
  "reload_keys keyring add_new now w =
     (let contents = read_contents w
      in case load_keys now contents [] w of
           (Inl e, w1) \<Rightarrow> (Inl e, w1)
         | (Inr ks, w1) \<Rightarrow>
             if add_new then
               (case add_new_key ks w1 of
                  (Inl e, w2) \<Rightarrow> (Inl e, w2)
                | (Inr ks2, w2) \<Rightarrow>
                    (case encode_keys ks2 [] w2 of
                       (None, w3) \<Rightarrow> (Inl NoMemory, w3)
                     | (Some contents2, w3) \<Rightarrow>
                         (let (saved, w4) = string_save_to_file contents2 (filename keyring) w3
                          in if \<not> saved then (Inl Failed, w4) else (Inr ks2, w4))))
             else (Inr ks, w1))"

text \<open>
  The end of the function: on success the new list has been installed in the keyring;
  at \<^verbatim>\<open>out:\<close> the lock is released if it is held.
\<close>

definition reload_out :: "DBusKeyring \<Rightarrow> bool \<Rightarrow> (error + DBusKey list) \<times> world \<Rightarrow> (error + unit) \<times> DBusKeyring \<times> world" where
  "reload_out keyring have_lock r =
     (case r of
        (Inl e, w) \<Rightarrow>
          (Inl e, keyring, if have_lock then dbus_keyring_unlock keyring w else w)
      | (Inr ks, w) \<Rightarrow>
          (Inr (), keyring\<lparr>keys := ks\<rparr>, if have_lock then dbus_keyring_unlock keyring w else w))"

definition dbus_keyring_reload :: "DBusKeyring \<Rightarrow> bool \<Rightarrow> world \<Rightarrow> (error + unit) \<times> DBusKeyring \<times> world" where
  "dbus_keyring_reload keyring add_new w =
     (let (ok_contents, w1) = alloc w
      in if \<not> ok_contents then (Inl NoMemory, keyring, w1)
         else
           (let (ok_line, w2) = alloc w1
            in if \<not> ok_line then (Inl NoMemory, keyring, w2)
               else
                 (let now = get_current_time w2
                  in if add_new then
                       (let (locked, w3) = dbus_keyring_lock keyring w2
                        in if \<not> locked then reload_out keyring False (Inl Failed, w3)
                           else reload_out keyring True (reload_keys keyring add_new now w3))
                     else reload_out keyring False (reload_keys keyring add_new now w2))))"

subsection \<open>The best key\<close>

fun find_recent :: "int \<Rightarrow> DBusKey list \<Rightarrow> DBusKey option" where
  "find_recent tv_sec [] = None"
| "find_recent tv_sec (k # ks) =
     (if (tv_sec - NEW_KEY_TIMEOUT_SECONDS) < creation_time k then Some k
      else find_recent tv_sec ks)"

definition find_recent_key :: "DBusKeyring \<Rightarrow> world \<Rightarrow> DBusKey option" where
  "find_recent_key keyring w = find_recent (get_current_time w) (keys keyring)"

text \<open>
  \<^verbatim>\<open>_dbus_keyring_get_best_key\<close>: \<open>Inr\<close> is the id returned, \<open>Inl\<close> the return of
  \<^verbatim>\<open>-1\<close> with the error set.
\<close>

definition dbus_keyring_get_best_key :: "DBusKeyring \<Rightarrow> world \<Rightarrow> (error + 32 word) \<times> DBusKeyring \<times> world" where
  "dbus_keyring_get_best_key keyring w =
     (case find_recent_key keyring w of
        Some k \<Rightarrow> (Inr (key_id k), keyring, w)
      | None \<Rightarrow>
          (case dbus_keyring_reload keyring True w of
             (Inl e, keyring1, w1) \<Rightarrow> (Inl e, keyring1, w1)
           | (Inr u, keyring1, w1) \<Rightarrow>
               (case find_recent_key keyring1 w1 of
                  Some k \<Rightarrow> (Inr (key_id k), keyring1, w1)
                | None \<Rightarrow> (Inl Failed, keyring1, w1))))"


subsection \<open>Construction\<close>









subsection \<open>Auxiliary notions for the statements\<close>

text \<open>
  The text of one key as the encoding loop appends it, without the newline, and the text
  of a key list.
\<close>

definition key_line :: "DBusKey \<Rightarrow> string" where
  "key_line k =
     show_int (sint (key_id k)) @ CHR '' '' # show_int (creation_time k) @ CHR '' '' #
       hex_encode (secret k)"

definition encode_text :: "DBusKey list \<Rightarrow> string" where
  "encode_text ks = concat (map (\<lambda>k. key_line k @ [CHR 0x0A]) ks)"

text \<open>The lines that the loop over the buffer pops, in order.\<close>

function split_lines :: "string \<Rightarrow> string list" where
  "split_lines contents =
     (case pop_line contents of
        None \<Rightarrow> []
      | Some (line, rest) \<Rightarrow> line # split_lines rest)"
  by pat_completeness auto
termination
proof (relation "measure length", goal_cases)
  case 1
  show ?case by simp
next
  case (2 contents x2 line rest)
  have "length (dropWhile (\<lambda>c. c \<noteq> CHR 0x0A) contents) \<le> length contents"
    by (rule length_dropWhile_le)
  with 2 show ?case
    by (cases contents) (auto simp: pop_line_def split: if_splits)
qed

declare split_lines.simps [simp del]


text \<open>
  The key that a line gives when the loop body goes through (the checks pass and the
  secret decodes), and the keys of a list of lines, in order.
\<close>

definition line_key :: "int \<Rightarrow> string \<Rightarrow> DBusKey option" where
  "line_key now line =
     (case parse_key_line now line of
        None \<Rightarrow> None
      | Some (i, timestamp, next4) \<Rightarrow>
          (case hex_decode_chars (drop next4 line) of
             None \<Rightarrow> None
           | Some s \<Rightarrow> Some \<lparr>key_id = i, creation_time = timestamp, secret = s\<rparr>))"

definition loaded_keys :: "int \<Rightarrow> string list \<Rightarrow> DBusKey list" where
  "loaded_keys now ls = List.map_filter (line_key now) ls"

subsection \<open>Example inputs\<close>

text \<open>A keyring of context \<^verbatim>\<open>ctx\<close> with no key, and a world where every script is empty.\<close>

definition example_keyring :: DBusKeyring where
  "example_keyring =
     \<lparr>refcount = 1, directory = ''h/.dbus-keyrings'', filename = ''h/.dbus-keyrings/ctx'',
      filename_lock = ''h/.dbus-keyrings/ctx.lock'', keys = []\<rparr>"

definition quiet_world :: world where
  "quiet_world =
     \<lparr>clock_ms = 1000000, data_file = None, allocs = [], creates = [], deletes = [],
      saves = [], random_source = [], trace = []\<rparr>"

text \<open>
  A world where one mutating reload goes through: memory for every allocation, the lock
  free, the save accepted, and 28 bytes of randomness (the id 1, then the secret).
\<close>

definition minting_world :: world where
  "minting_world =
     \<lparr>clock_ms = 1000000, data_file = None,
      allocs = [True, True, True, True, True, True, True, True, True, True, True, True],
      creates = [True], deletes = [True], saves = [True],
      random_source = [1, 0, 0, 0,
                       1, 2, 3, 4, 5, 6, 7, 8, 9, 10, 11, 12,
                       13, 14, 15, 16, 17, 18, 19, 20, 21, 22, 23, 0xAB],
      trace = []\<rparr>"

definition minted_key :: DBusKey where
  "minted_key =
     \<lparr>key_id = 1, creation_time = 1000,
      secret = [1, 2, 3, 4, 5, 6, 7, 8, 9, 10, 11, 12,
                13, 14, 15, 16, 17, 18, 19, 20, 21, 22, 23, 0xAB]\<rparr>"

text \<open>
  A world where a mutating reload gets the lock and then fails: the random source is dry.
\<close>

definition dry_world :: world where
  "dry_world =
     \<lparr>clock_ms = 1000000, data_file = None, allocs = [True, True, True],
      creates = [True], deletes = [True], saves = [], random_source = [], trace = []\<rparr>"

text \<open>Three keys, 300, 299 and 0 seconds old at time 1000.\<close>

definition aged_keys :: "DBusKey list" where
  "aged_keys = [\<lparr>key_id = 11, creation_time = 700, secret = [1]\<rparr>,
                \<lparr>key_id = 12, creation_time = 701, secret = [2]\<rparr>,
                \<lparr>key_id = 13, creation_time = 1000, secret = [3]\<rparr>]"

text \<open>Two keys that are valid at time 1000.\<close>

definition two_keys :: "DBusKey list" where
  "two_keys = [\<lparr>key_id = 5, creation_time = 1000, secret = [0xAB]\<rparr>,
               \<lparr>key_id = 7, creation_time = 990, secret = [1, 2]\<rparr>]"




text \<open>
  A key file read at time 1000 with time stamps 419 and 421 seconds back and 301 seconds
  ahead.
\<close>

definition expiry_world :: world where
  "expiry_world =
     \<lparr>clock_ms = 1000000,
      data_file = Some (''7 581 0aff'' @ [CHR 0x0A] @ ''8 579 0aff'' @ [CHR 0x0A] @
                        ''9 1301 0aff'' @ [CHR 0x0A]),
      allocs = [True, True, True, True, True, True, True, True],
      creates = [], deletes = [], saves = [], random_source = [], trace = []\<rparr>"

text \<open>A key file read at time 100, with the time stamp \<open>100 - 419\<close>.\<close>

definition early_world :: world where
  "early_world =
     \<lparr>clock_ms = 100000,
      data_file = Some (''7 -319 0aff'' @ [CHR 0x0A]),
      allocs = [True, True, True, True, True],
      creates = [], deletes = [], saves = [], random_source = [], trace = []\<rparr>"


section \<open>The advisory lock\<close>

text \<open>
  When every attempt of the loop fails, the loop ends with \<^verbatim>\<open>n_timeouts\<close> at its bound,
  having tried and slept once per round.
\<close>

lemma lock_loop_all_fail:
  "creates w = replicate (MAX_LOCK_TIMEOUTS - n) False @ cs \<Longrightarrow> n \<le> MAX_LOCK_TIMEOUTS \<Longrightarrow>
   lock_loop kr n w =
     (MAX_LOCK_TIMEOUTS,
      w\<lparr>clock_ms := clock_ms w + int (LOCK_TIMEOUT_MILLISECONDS * (MAX_LOCK_TIMEOUTS - n)),
        creates := cs,
        trace := trace w @ concat (replicate (MAX_LOCK_TIMEOUTS - n)
                   [EvCreateExcl (filename_lock kr) False, EvSleep LOCK_TIMEOUT_MILLISECONDS])\<rparr>)"
proof (induction "MAX_LOCK_TIMEOUTS - n" arbitrary: n w)
  case 0
  then have "n = MAX_LOCK_TIMEOUTS" by simp
  with 0 show ?case by (simp add: lock_loop.simps)
next
  case (Suc k)
  from Suc.hyps(2) have lt: "n < MAX_LOCK_TIMEOUTS" and k: "k = MAX_LOCK_TIMEOUTS - Suc n"
    by simp_all
  from Suc.hyps(2) Suc.prems(1) have cr: "creates w = False # replicate k False @ cs"
    by (metis replicate_Suc append_Cons)
  let ?w1 = "sleep_milliseconds LOCK_TIMEOUT_MILLISECONDS
               (snd (create_file_exclusively (filename_lock kr) w))"
  have cr1: "creates ?w1 = replicate (MAX_LOCK_TIMEOUTS - Suc n) False @ cs"
    using cr k by (simp add: sleep_milliseconds_def create_file_exclusively_def)
  have step: "lock_loop kr n w = lock_loop kr (Suc n) ?w1"
    using lt cr by (subst lock_loop.simps) (simp add: create_file_exclusively_def)
  have "lock_loop kr (Suc n) ?w1 = (MAX_LOCK_TIMEOUTS,
      ?w1\<lparr>clock_ms := clock_ms ?w1 + int (LOCK_TIMEOUT_MILLISECONDS * (MAX_LOCK_TIMEOUTS - Suc n)),
        creates := cs,
        trace := trace ?w1 @ concat (replicate (MAX_LOCK_TIMEOUTS - Suc n)
                   [EvCreateExcl (filename_lock kr) False, EvSleep LOCK_TIMEOUT_MILLISECONDS])\<rparr>)"
    using Suc.hyps(1)[OF k cr1] lt by simp
  with step show ?case using cr
    by (simp add: sleep_milliseconds_def create_file_exclusively_def Suc.hyps(2)[symmetric]
          k[symmetric] algebra_simps)
qed

text \<open>
  C8, as the code has it. When all 32 exclusive creates of the loop fail (each followed
  by a sleep of 250 ms), the lock file is deleted; if that delete reports failure the
  acquisition fails there and then, with no further create; otherwise exactly one more
  exclusive create is attempted and the acquisition succeeds exactly when it does. Here
  \<open>d\<close> is the outcome of the delete and \<open>c\<close> the outcome the 33rd create has (or would
  have).
\<close>

theorem lock_stale_recovery:
  assumes "creates w = replicate MAX_LOCK_TIMEOUTS False @ c # cs" and "deletes w = d # ds"
  shows "fst (dbus_keyring_lock kr w) = (d \<and> c) \<and>
         trace (snd (dbus_keyring_lock kr w)) =
           trace w @ concat (replicate MAX_LOCK_TIMEOUTS
                       [EvCreateExcl (filename_lock kr) False, EvSleep LOCK_TIMEOUT_MILLISECONDS])
                   @ [EvDelete (filename_lock kr) d]
                   @ (if d then [EvCreateExcl (filename_lock kr) c] else [])"
  using assms lock_loop_all_fail[of w 0 "c # cs" kr]
  by (simp add: dbus_keyring_lock_def delete_file_def create_file_exclusively_def)

theorem lock_stale_recovery_witness:
  "fst (dbus_keyring_lock example_keyring
         (quiet_world\<lparr>creates := replicate MAX_LOCK_TIMEOUTS False @ [True], deletes := [True]\<rparr>))
     = True \<and>
   last (trace (snd (dbus_keyring_lock example_keyring
         (quiet_world\<lparr>creates := replicate MAX_LOCK_TIMEOUTS False @ [True], deletes := [True]\<rparr>))))
     = EvCreateExcl ''h/.dbus-keyrings/ctx.lock'' True"
  using lock_stale_recovery[of
      "quiet_world\<lparr>creates := replicate MAX_LOCK_TIMEOUTS False @ [True], deletes := [True]\<rparr>"
      True "[]" True "[]" example_keyring]
  by (simp add: example_keyring_def)

text \<open>
  C8 as stated fails: the delete of the stale lock file reports failure, the 33rd create
  would have succeeded, and the acquisition fails without attempting it (the last event
  is the failed delete).
\<close>

theorem lock_fails_on_delete_counterexample:
  "fst (dbus_keyring_lock example_keyring
         (quiet_world\<lparr>creates := replicate MAX_LOCK_TIMEOUTS False @ [True], deletes := [False]\<rparr>))
     = False \<and>
   last (trace (snd (dbus_keyring_lock example_keyring
         (quiet_world\<lparr>creates := replicate MAX_LOCK_TIMEOUTS False @ [True], deletes := [False]\<rparr>))))
     = EvDelete ''h/.dbus-keyrings/ctx.lock'' False"
  using lock_loop_all_fail[of
      "quiet_world\<lparr>creates := replicate MAX_LOCK_TIMEOUTS False @ [True], deletes := [False]\<rparr>"
      0 "[True]" example_keyring]
  by (simp add: dbus_keyring_lock_def delete_file_def example_keyring_def)

section \<open>The id of a new key\<close>

lemma sint_neg_nonneg:
  fixes i :: "32 word"
  assumes "sint i < 0" and "i \<noteq> 0x80000000"
  shows "0 \<le> sint (- i)"
proof -
  have lo: "- (2 ^ 31) \<le> sint i"
    using sint_ge[of i] by simp
  have "sint i \<noteq> sint (0x80000000 :: 32 word)"
    using assms(2) word_eq_iff_signed[where 'a = int, of i "0x80000000"] by blast
  then have "sint i \<noteq> - (2 ^ 31)" by simp
  with lo assms(1) have rng: "- (2 ^ 31) \<le> - sint i \<and> - sint i < 2 ^ 31 \<and> 0 < - sint i"
    by simp
  have "sint (- i) = signed_take_bit 31 (- sint i)"
    by (simp add: sint_word_minus)
  also have "\<dots> = - sint i"
    using rng by (simp add: signed_take_bit_int_eq_self_iff)
  finally show ?thesis using rng by simp
qed

text \<open>Every draw but the one that makes \<^verbatim>\<open>INT_MIN\<close> gives an id that is not negative.\<close>

lemma new_key_id_nonneg:
  "id_of_bytes s \<noteq> 0x80000000 \<Longrightarrow> 0 \<le> sint (new_key_id s)"
  using sint_neg_nonneg[of "id_of_bytes s"]
  by (auto simp: new_key_id_def Let_def)

text \<open>
  C7 at the draw \<^verbatim>\<open>00 00 00 80\<close>: the four bytes make \<^verbatim>\<open>INT_MIN\<close>, whose negation wraps
  around to itself, so the id is negative where the source asserts \<^verbatim>\<open>id >= 0\<close>, and
  \<^verbatim>\<open>add_new_key\<close> stops at the assertion.
\<close>

theorem new_key_id_int_min:
  "sint (new_key_id [0, 0, 0, 0x80]) = - 2147483648 \<and>
   fst (add_new_key [] (quiet_world\<lparr>allocs := [True], random_source := [0, 0, 0, 0x80]\<rparr>))
     = Inl AssertionFailed"
  by (simp add: new_key_id_def id_of_bytes_def add_new_key_def alloc_def quiet_world_def
        generate_id.simps generate_random_bytes_def)


section \<open>Concrete runs\<close>

lemma dec_digits_small: "n < 10 \<Longrightarrow> dec_digits n = [digit_char n]"
  by (subst dec_digits.simps) simp

lemma dec_digits_step:
  "10 \<le> n \<Longrightarrow> dec_digits n = dec_digits (n div 10) @ [digit_char (n mod 10)]"
  by (subst dec_digits.simps) simp

lemmas parse_eval = parse_key_line_def parse_int_def skip_blank_def is_digit_def is_blank_def
  digits_val_def digit_val_def DBUS_INT_MAX_def MAX_TIME_TRAVEL_SECONDS_def
  EXPIRE_KEYS_TIMEOUT_SECONDS_def NEW_KEY_TIMEOUT_SECONDS_def

lemmas int_eval = parse_int_def skip_blank_def is_digit_def is_blank_def digits_val_def
  digit_val_def DBUS_INT_MAX_def

lemmas show_eval = show_int_def dec_digits_step dec_digits_small digit_char_def
  hex_encode_def hex_digit_def

lemma dec_digits_1: "dec_digits (Suc 0) = ''1''"
  by (simp add: dec_digits_small digit_char_def)

lemma dec_digits_1000: "dec_digits 1000 = ''1000''"
  by (simp add: dec_digits.simps[of 1000] dec_digits.simps[of 100] dec_digits.simps[of 10]
        dec_digits_1 digit_char_def)

lemma new_key_id_example: "new_key_id [1, 0, 0, 0] = 1"
  by (simp add: new_key_id_def id_of_bytes_def)

lemma hex_encode_example:
  "hex_encode [1, 2, 3, 4, 5, 6, 7, 8, 9, 10, 11, 12, 13, 14, 15, 16, 17, 18, 19, 20, 21, 22, 23, 0xAB]
     = ''0102030405060708090a0b0c0d0e0f1011121314151617ab''"
  by (simp add: hex_encode_def hex_digit_def)

lemma lock_loop_first:
  "creates w = True # cs \<Longrightarrow>
   lock_loop kr 0 w = (0, snd (create_file_exclusively (filename_lock kr) w))"
  by (subst lock_loop.simps) (simp add: create_file_exclusively_def MAX_LOCK_TIMEOUTS_def)

text \<open>The mutating reload in \<open>minting_world\<close>: lock, mint key 1, save, unlock, install.\<close>

lemma minting_reload:
  "dbus_keyring_reload kr True minting_world =
     (Inr (),
      kr\<lparr>keys := [minted_key]\<rparr>,
      minting_world\<lparr>allocs := [], creates := [], deletes := [], saves := [], random_source := [],
         data_file := Some (''1 1000 0102030405060708090a0b0c0d0e0f1011121314151617ab'' @ [CHR 0x0A]),
         trace := [EvCreateExcl (filename_lock kr) True,
                   EvSave (filename kr)
                     (''1 1000 0102030405060708090a0b0c0d0e0f1011121314151617ab'' @ [CHR 0x0A]) True,
                   EvDelete (filename_lock kr) True]\<rparr>)"
  by (simp add: dbus_keyring_reload_def minting_world_def alloc_def get_current_time_def
      dbus_keyring_lock_def lock_loop_first create_file_exclusively_def MAX_LOCK_TIMEOUTS_def
      reload_out_def reload_keys_def read_contents_def file_get_contents_def validate_ascii_def
      load_keys.simps pop_line_def add_new_key_def generate_id.simps generate_random_bytes_def
      new_key_id_example KEY_LENGTH_BYTES_def encode_key_def and_then_def string_append_int_def
      string_append_byte_def string_hex_encode_def string_append_def show_int_def
      dec_digits_1 dec_digits_1000 hex_encode_example string_save_to_file_def
      dbus_keyring_unlock_def delete_file_def minted_key_def)

text \<open>The mutating reload in \<open>dry_world\<close>: lock, no randomness for the id, unlock.\<close>

lemma dry_reload:
  "dbus_keyring_reload kr True dry_world =
     (Inl NoMemory, kr,
      dry_world\<lparr>allocs := [], creates := [], deletes := [],
         trace := [EvCreateExcl (filename_lock kr) True, EvDelete (filename_lock kr) True]\<rparr>)"
  by (simp add: dbus_keyring_reload_def dry_world_def alloc_def get_current_time_def
      dbus_keyring_lock_def lock_loop_first create_file_exclusively_def MAX_LOCK_TIMEOUTS_def
      reload_out_def reload_keys_def read_contents_def file_get_contents_def validate_ascii_def
      load_keys.simps pop_line_def add_new_key_def generate_id.simps generate_random_bytes_def
      dbus_keyring_unlock_def delete_file_def)

section \<open>What a reload does to the trace\<close>

lemma alloc_trace: "alloc w = (ok, w1) \<Longrightarrow> trace w1 = trace w"
  by (auto simp: alloc_def split: prod.splits)

lemma string_hex_decode_trace: "string_hex_decode str n w = (r, w1) \<Longrightarrow> trace w1 = trace w"
  by (auto simp: string_hex_decode_def dest: alloc_trace split: prod.splits if_splits)

lemma load_line_trace: "load_line now line ks w = (r, w1) \<Longrightarrow> trace w1 = trace w"
  by (auto simp: load_line_def dest!: alloc_trace string_hex_decode_trace
           split: option.splits prod.splits if_splits)

lemma load_keys_trace: "load_keys now contents ks w = (r, w1) \<Longrightarrow> trace w1 = trace w"
proof (induction now contents ks w rule: load_keys.induct)
  case (1 now contents ks w)
  show ?case
  proof (cases "pop_line contents")
    case None
    with 1(2) show ?thesis by (simp add: load_keys.simps)
  next
    case (Some p)
    obtain line rest where p: "p = (line, rest)" by (cases p)
    obtain r1 w2 where ll: "load_line now line ks w = (r1, w2)" by (cases "load_line now line ks w")
    have t2: "trace w2 = trace w" using ll by (rule load_line_trace)
    show ?thesis
    proof (cases r1)
      case (Inl e)
      with 1(2) Some p ll t2 show ?thesis by (simp add: load_keys.simps)
    next
      case (Inr ks1)
      with 1(2) Some p ll have "load_keys now rest ks1 w2 = (r, w1)" by (simp add: load_keys.simps)
      with 1(1)[OF Some p[symmetric] ll[symmetric] Inr] t2 show ?thesis by simp
    qed
  qed
qed

lemma generate_random_bytes_trace: "generate_random_bytes n w = (r, w1) \<Longrightarrow> trace w1 = trace w"
  by (auto simp: generate_random_bytes_def split: if_splits)

lemma generate_id_trace: "generate_id ks w = (r, w1) \<Longrightarrow> trace w1 = trace w"
proof (induction ks w rule: generate_id.induct)
  case (1 ks w)
  obtain b w2 where g: "generate_random_bytes 4 w = (b, w2)" by (cases "generate_random_bytes 4 w")
  have t2: "trace w2 = trace w" using g by (rule generate_random_bytes_trace)
  show ?case
  proof (cases b)
    case None
    with 1(2) g t2 show ?thesis by (simp add: generate_id.simps)
  next
    case (Some s)
    show ?thesis
    proof (cases "0 \<le> sint (new_key_id s) \<and> find_key_by_id ks (new_key_id s) \<noteq> None")
      case True
      with 1(2) g Some have "generate_id ks w2 = (r, w1)"
        by (simp add: generate_id.simps[of ks w] Let_def)
      with 1(1)[OF g[symmetric] Some refl _ _] True t2 show ?thesis by simp
    next
      case False
      with 1(2) g Some t2 show ?thesis
        by (auto simp: generate_id.simps[of ks w] Let_def split: if_splits)
    qed
  qed
qed

lemma add_new_key_trace: "add_new_key ks w = (r, w1) \<Longrightarrow> trace w1 = trace w"
  by (auto simp: add_new_key_def Let_def
           dest!: alloc_trace generate_id_trace generate_random_bytes_trace
           split: prod.splits sum.splits option.splits if_splits)

lemma string_append_trace: "trace (snd (string_append str t w)) = trace w"
  by (auto simp: string_append_def dest: alloc_trace split: prod.splits if_splits)

lemma and_then_trace:
  assumes "trace (snd r0) = t" and "\<And>x w. trace (snd (f x w)) = trace w"
  shows "trace (snd (and_then r0 f)) = t"
  using assms by (auto simp: and_then_def split: prod.splits option.splits)

lemma encode_key_snd_trace: "trace (snd (encode_key k contents w)) = trace w"
  unfolding encode_key_def string_append_int_def string_append_byte_def string_hex_encode_def
  by (intro and_then_trace string_append_trace)

lemma encode_key_trace: "encode_key k contents w = (r, w1) \<Longrightarrow> trace w1 = trace w"
  using encode_key_snd_trace[of k contents w] by simp

lemma encode_keys_trace: "encode_keys ks contents w = (r, w1) \<Longrightarrow> trace w1 = trace w"
proof (induction ks arbitrary: contents w)
  case Nil
  then show ?case by simp
next
  case (Cons k ks)
  obtain r1 w2 where e: "encode_key k contents w = (r1, w2)" by (cases "encode_key k contents w")
  have t2: "trace w2 = trace w" using e by (rule encode_key_trace)
  show ?case
  proof (cases r1)
    case None
    with Cons.prems e t2 show ?thesis by simp
  next
    case (Some c1)
    with Cons.prems e have "encode_keys ks c1 w2 = (r, w1)" by simp
    from Cons.IH[OF this] t2 show ?thesis by simp
  qed
qed

text \<open>The reload between lock and unlock adds events to the trace, and removes none.\<close>

lemma reload_keys_trace:
  "reload_keys kr add_new now w = (r, w1) \<Longrightarrow> \<exists>evs. trace w1 = trace w @ evs"
  by (auto simp: reload_keys_def Let_def string_save_to_file_def
           dest!: load_keys_trace add_new_key_trace encode_keys_trace
           split: prod.splits sum.splits option.splits if_splits)

lemma lock_loop_trace:
  "lock_loop kr n w = (m, w1) \<Longrightarrow> n \<le> MAX_LOCK_TIMEOUTS \<Longrightarrow>
   \<exists>evs. trace w1 = trace w @ evs \<and> m \<le> MAX_LOCK_TIMEOUTS \<and>
     (m < MAX_LOCK_TIMEOUTS \<longrightarrow> evs \<noteq> [] \<and> last evs = EvCreateExcl (filename_lock kr) True) \<and>
     (m = MAX_LOCK_TIMEOUTS \<longrightarrow> EvCreateExcl (filename_lock kr) True \<notin> set evs)"
proof (induction kr n w rule: lock_loop.induct)
  case (1 kr n w)
  show ?case
  proof (cases "n < MAX_LOCK_TIMEOUTS")
    case False
    with 1(2,3) show ?thesis by (simp add: lock_loop.simps[of kr n w])
  next
    case True
    obtain ok w2 where c: "create_file_exclusively (filename_lock kr) w = (ok, w2)"
      by (cases "create_file_exclusively (filename_lock kr) w")
    then have t2: "trace w2 = trace w @ [EvCreateExcl (filename_lock kr) ok]"
      by (auto simp: create_file_exclusively_def split: prod.splits)
    show ?thesis
    proof (cases ok)
      case True
      with \<open>n < MAX_LOCK_TIMEOUTS\<close> 1(2) c t2 show ?thesis
        by (simp add: lock_loop.simps[of kr n w])
    next
      case False
      let ?w3 = "sleep_milliseconds LOCK_TIMEOUT_MILLISECONDS w2"
      have t3: "trace ?w3 = trace w @ [EvCreateExcl (filename_lock kr) False, EvSleep LOCK_TIMEOUT_MILLISECONDS]"
        using t2 False by (simp add: sleep_milliseconds_def)
      from False \<open>n < MAX_LOCK_TIMEOUTS\<close> 1(2) c have "lock_loop kr (Suc n) ?w3 = (m, w1)"
        by (simp add: lock_loop.simps[of kr n w])
      from 1(1)[OF \<open>n < MAX_LOCK_TIMEOUTS\<close> refl c[symmetric] False this] \<open>n < MAX_LOCK_TIMEOUTS\<close>
      obtain evs where e: "trace w1 = trace ?w3 @ evs" "m \<le> MAX_LOCK_TIMEOUTS"
        "m < MAX_LOCK_TIMEOUTS \<longrightarrow> evs \<noteq> [] \<and> last evs = EvCreateExcl (filename_lock kr) True"
        "m = MAX_LOCK_TIMEOUTS \<longrightarrow> EvCreateExcl (filename_lock kr) True \<notin> set evs"
        by auto
      show ?thesis
        by (rule exI[of _ "[EvCreateExcl (filename_lock kr) False, EvSleep LOCK_TIMEOUT_MILLISECONDS] @ evs"])
           (use e t3 in auto)
    qed
  qed
qed

lemma dbus_keyring_lock_trace:
  assumes "dbus_keyring_lock kr w = (locked, w1)"
  shows "\<exists>evs. trace w1 = trace w @ evs \<and>
     (locked \<longrightarrow> evs \<noteq> [] \<and> last evs = EvCreateExcl (filename_lock kr) True) \<and>
     (\<not> locked \<longrightarrow> EvCreateExcl (filename_lock kr) True \<notin> set evs)"
proof -
  obtain m w2 where l: "lock_loop kr 0 w = (m, w2)" by (cases "lock_loop kr 0 w")
  from lock_loop_trace[OF l] obtain evs where e: "trace w2 = trace w @ evs" "m \<le> MAX_LOCK_TIMEOUTS"
        "m < MAX_LOCK_TIMEOUTS \<longrightarrow> evs \<noteq> [] \<and> last evs = EvCreateExcl (filename_lock kr) True"
        "m = MAX_LOCK_TIMEOUTS \<longrightarrow> EvCreateExcl (filename_lock kr) True \<notin> set evs"
    by auto
  show ?thesis
  proof (cases "m = MAX_LOCK_TIMEOUTS")
    case False
    with assms l e show ?thesis by (auto simp: dbus_keyring_lock_def)
  next
    case True
    obtain d w3 where d: "delete_file (filename_lock kr) w2 = (d, w3)"
      by (cases "delete_file (filename_lock kr) w2")
    then have t3: "trace w3 = trace w @ evs @ [EvDelete (filename_lock kr) d]"
      using e(1) by (auto simp: delete_file_def split: prod.splits)
    obtain c w4 where c: "create_file_exclusively (filename_lock kr) w3 = (c, w4)"
      by (cases "create_file_exclusively (filename_lock kr) w3")
    then have t4: "trace w4 = trace w @ evs @ [EvDelete (filename_lock kr) d, EvCreateExcl (filename_lock kr) c]"
      using t3 by (auto simp: create_file_exclusively_def split: prod.splits)
    show ?thesis
    proof (cases d)
      case False
      with assms l True d have "locked = False" "w1 = w3" by (auto simp: dbus_keyring_lock_def)
      with t3 e(4) True show ?thesis by auto
    next
      case dT: True
      with assms l True d c have "locked = c" "w1 = w4"
        by (auto simp: dbus_keyring_lock_def split: if_splits)
      with t4 e(4) True show ?thesis by auto
    qed
  qed
qed


text \<open>
  C10. Whatever a reload returns, the events of the call are appended to the trace, and
  if the call acquired the lock (a successful exclusive create of the lock file is among
  its events), its last event is the delete of the lock file by \<^verbatim>\<open>_dbus_keyring_unlock\<close>:
  the reload never returns without having called unlock. (A delete that fails is only
  warned about; \<open>ok\<close> is its outcome.)
\<close>

theorem reload_releases_lock:
  assumes "dbus_keyring_reload kr add_new w = (r, kr1, w1)"
  shows "\<exists>evs. trace w1 = trace w @ evs \<and>
           (EvCreateExcl (filename_lock kr) True \<in> set evs \<longrightarrow>
              (\<exists>ok. last evs = EvDelete (filename_lock kr) ok))"
proof -
  obtain ok1 wa where a1: "alloc w = (ok1, wa)" by (cases "alloc w")
  obtain ok2 wb where a2: "alloc wa = (ok2, wb)" by (cases "alloc wa")
  have tb: "trace wa = trace w" "trace wb = trace w"
    using alloc_trace[OF a1] alloc_trace[OF a2] by simp_all
  show ?thesis
  proof (cases "ok1 \<and> ok2")
    case False
    with assms a1 a2 tb have "trace w1 = trace w"
      by (auto simp: dbus_keyring_reload_def split: if_splits)
    then show ?thesis by simp
  next
    case True
    show ?thesis
    proof (cases add_new)
      case False
      obtain rk wc where rk: "reload_keys kr add_new (get_current_time wb) wb = (rk, wc)"
        by (cases "reload_keys kr add_new (get_current_time wb) wb")
      have "trace wc = trace wb" using rk False
        by (auto simp: reload_keys_def Let_def dest!: load_keys_trace split: prod.splits sum.splits)
      with assms a1 a2 True False rk tb have "trace w1 = trace w"
        by (auto simp: dbus_keyring_reload_def reload_out_def split: sum.splits)
      then show ?thesis by simp
    next
      case an: True
      obtain locked wc where lk: "dbus_keyring_lock kr wb = (locked, wc)"
        by (cases "dbus_keyring_lock kr wb")
      from dbus_keyring_lock_trace[OF lk] obtain evs where e: "trace wc = trace wb @ evs"
        "locked \<longrightarrow> evs \<noteq> [] \<and> last evs = EvCreateExcl (filename_lock kr) True"
        "\<not> locked \<longrightarrow> EvCreateExcl (filename_lock kr) True \<notin> set evs" by auto
      show ?thesis
      proof (cases locked)
        case False
        with assms a1 a2 True an lk have "w1 = wc"
          by (auto simp: dbus_keyring_reload_def reload_out_def)
        with e False tb show ?thesis by auto
      next
        case lT: True
        obtain rk wd where rk: "reload_keys kr add_new (get_current_time wb) wc = (rk, wd)"
          by (cases "reload_keys kr add_new (get_current_time wb) wc")
        from reload_keys_trace[OF rk] obtain evs2 where e2: "trace wd = trace wc @ evs2" by auto
        from assms a1 a2 True an lk lT rk have "w1 = dbus_keyring_unlock kr wd"
          by (auto simp: dbus_keyring_reload_def reload_out_def split: sum.splits)
        then have "trace w1 = trace w @ (evs @ evs2 @ [EvDelete (filename_lock kr) (fst (next_outcome (deletes wd)))])"
          using e2 e(1) tb
          by (auto simp: dbus_keyring_unlock_def delete_file_def split: prod.splits)
        then show ?thesis by (metis append_assoc last_snoc)
      qed
    qed
  qed
qed

theorem reload_releases_lock_witness:
  "\<exists>evs. trace (snd (snd (dbus_keyring_reload example_keyring True minting_world)))
            = trace minting_world @ evs \<and>
         EvCreateExcl (filename_lock example_keyring) True \<in> set evs \<and>
         last evs = EvDelete (filename_lock example_keyring) True"
proof -
  from reload_releases_lock[OF minting_reload, of example_keyring]
  obtain evs where e:
    "trace (minting_world\<lparr>allocs := [], creates := [], deletes := [], saves := [],
         random_source := [],
         data_file := Some (''1 1000 0102030405060708090a0b0c0d0e0f1011121314151617ab'' @ [CHR 0x0A]),
         trace := [EvCreateExcl (filename_lock example_keyring) True,
                   EvSave (filename example_keyring)
                     (''1 1000 0102030405060708090a0b0c0d0e0f1011121314151617ab'' @ [CHR 0x0A]) True,
                   EvDelete (filename_lock example_keyring) True]\<rparr>) = trace minting_world @ evs"
    by blast
  have "trace minting_world = []" by (simp add: minting_world_def)
  with e have "evs = [EvCreateExcl (filename_lock example_keyring) True,
                   EvSave (filename example_keyring)
                     (''1 1000 0102030405060708090a0b0c0d0e0f1011121314151617ab'' @ [CHR 0x0A]) True,
                   EvDelete (filename_lock example_keyring) True]"
    by simp
  with e show ?thesis
    by (intro exI[of _ evs]) (simp add: minting_reload)
qed

section \<open>A failed reload\<close>

lemma reload_failure_unchanged:
  "dbus_keyring_reload kr add_new w = (Inl e, kr1, w1) \<Longrightarrow> kr1 = kr"
  by (auto simp: dbus_keyring_reload_def reload_out_def Let_def
           split: prod.splits sum.splits if_splits)

text \<open>
  C6. A reload that returns failure, for whatever reason (the lock, memory during the
  decoding or the key generation, the encoding, the save), returns the keyring as it
  was: directory, file names, reference count and key list. The list built by the call
  is installed only on the path that returns success.
\<close>

theorem reload_failure_keeps_keyring:
  assumes "dbus_keyring_reload kr add_new w = (Inl e, kr1, w1)"
  shows "kr1 = kr"
  using assms by (rule reload_failure_unchanged)

theorem reload_failure_keeps_keyring_witness:
  "fst (dbus_keyring_reload (example_keyring\<lparr>keys := aged_keys\<rparr>) True dry_world) = Inl NoMemory \<and>
   keys (fst (snd (dbus_keyring_reload (example_keyring\<lparr>keys := aged_keys\<rparr>) True dry_world)))
     = aged_keys"
  using reload_failure_keeps_keyring[OF dry_reload, of "example_keyring\<lparr>keys := aged_keys\<rparr>"]
  by (simp add: dry_reload)


section \<open>The best key\<close>

lemma find_recent_first:
  "ks = pre @ k # post \<Longrightarrow> \<forall>p\<in>set pre. creation_time p \<le> t - 300 \<Longrightarrow>
   t - 300 < creation_time k \<Longrightarrow> find_recent t ks = Some k"
  by (induction pre arbitrary: ks) (auto simp: NEW_KEY_TIMEOUT_SECONDS_def)

lemma find_recent_none:
  "\<forall>p\<in>set ks. creation_time p \<le> t - 300 \<Longrightarrow> find_recent t ks = None"
  by (induction ks) (auto simp: NEW_KEY_TIMEOUT_SECONDS_def)

text \<open>
  C5. With \<open>now\<close> the current time: if \<open>k\<close> is the first key of the list, in order,
  whose creation time is strictly greater than \<open>now - 300\<close>, then get-best-key returns
  the id of \<open>k\<close> and leaves keyring and world as they are (no reload, no lock, no write),
  whatever fresher keys follow it. If every key has a creation time of at most
  \<open>now - 300\<close> (or there is no key), get-best-key is the mutating reload
  (\<^verbatim>\<open>add_new = TRUE\<close>) followed, when it succeeds, by the same scan of the new list.
\<close>

theorem best_key_selection:
  "(keys kr = pre @ k # post \<and>
    (\<forall>p\<in>set pre. creation_time p \<le> get_current_time w - 300) \<and>
    get_current_time w - 300 < creation_time k
      \<longrightarrow> dbus_keyring_get_best_key kr w = (Inr (key_id k), kr, w)) \<and>
   ((\<forall>p\<in>set (keys kr). creation_time p \<le> get_current_time w - 300)
      \<longrightarrow> dbus_keyring_get_best_key kr w =
            (case dbus_keyring_reload kr True w of
               (Inl e, kr1, w1) \<Rightarrow> (Inl e, kr1, w1)
             | (Inr u, kr1, w1) \<Rightarrow>
                 (case find_recent (get_current_time w1) (keys kr1) of
                    Some k1 \<Rightarrow> (Inr (key_id k1), kr1, w1)
                  | None \<Rightarrow> (Inl Failed, kr1, w1))))"
  by (auto simp: dbus_keyring_get_best_key_def find_recent_key_def find_recent_first
        find_recent_none split: prod.splits sum.splits option.splits)

text \<open>
  At time 1000 the key made at 701 (299 seconds old) is chosen, not the one made at 700
  before it nor the fresher one after it, and nothing is touched; with only the key made
  at 700 the reload mints key 1, which the second scan finds.
\<close>

theorem best_key_selection_witness:
  "dbus_keyring_get_best_key (example_keyring\<lparr>keys := aged_keys\<rparr>) quiet_world =
     (Inr 12, example_keyring\<lparr>keys := aged_keys\<rparr>, quiet_world) \<and>
   fst (dbus_keyring_get_best_key (example_keyring\<lparr>keys := [hd aged_keys]\<rparr>) minting_world)
     = Inr 1 \<and>
   trace (snd (snd (dbus_keyring_get_best_key (example_keyring\<lparr>keys := [hd aged_keys]\<rparr>)
                      minting_world)))
     = [EvCreateExcl (filename_lock example_keyring) True,
        EvSave (filename example_keyring)
          (''1 1000 0102030405060708090a0b0c0d0e0f1011121314151617ab'' @ [CHR 0x0A]) True,
        EvDelete (filename_lock example_keyring) True]"
proof -
  have t: "get_current_time quiet_world = 1000" "get_current_time minting_world = 1000"
    by (simp_all add: quiet_world_def minting_world_def get_current_time_def)
  have a: "dbus_keyring_get_best_key (example_keyring\<lparr>keys := aged_keys\<rparr>) quiet_world =
     (Inr 12, example_keyring\<lparr>keys := aged_keys\<rparr>, quiet_world)"
    using best_key_selection[of "example_keyring\<lparr>keys := aged_keys\<rparr>"
        "[\<lparr>key_id = 11, creation_time = 700, secret = [1]\<rparr>]"
        "\<lparr>key_id = 12, creation_time = 701, secret = [2]\<rparr>"
        "[\<lparr>key_id = 13, creation_time = 1000, secret = [3]\<rparr>]" quiet_world] t
    by (simp add: aged_keys_def)
  have h: "creation_time (hd aged_keys) = 700"
    by (simp add: aged_keys_def)
  have b: "dbus_keyring_get_best_key (example_keyring\<lparr>keys := [hd aged_keys]\<rparr>) minting_world =
     (case dbus_keyring_reload (example_keyring\<lparr>keys := [hd aged_keys]\<rparr>) True minting_world of
               (Inl e, kr1, w1) \<Rightarrow> (Inl e, kr1, w1)
             | (Inr u, kr1, w1) \<Rightarrow>
                 (case find_recent (get_current_time w1) (keys kr1) of
                    Some k1 \<Rightarrow> (Inr (key_id k1), kr1, w1)
                  | None \<Rightarrow> (Inl Failed, kr1, w1)))"
    using best_key_selection[of "example_keyring\<lparr>keys := [hd aged_keys]\<rparr>" "[]"
        "\<lparr>key_id = 12, creation_time = 701, secret = [2]\<rparr>" "[]" minting_world] t
    by (simp add: h)
  have c: "clock_ms minting_world = 1000000" "trace minting_world = []"
    by (simp_all add: minting_world_def)
  show ?thesis
    using a
    by (simp add: b minting_reload get_current_time_def c minted_key_def
          NEW_KEY_TIMEOUT_SECONDS_def)
qed

text \<open>
  C9. If a call of get-best-key returns a key id, a second call on the keyring it left,
  at the same current time, returns the same id and leaves keyring and world as they
  are: the trace gets no event (no create of the lock file, no save) and the data file
  is the same. The second world \<open>w2\<close> is any world whose clock reads the same second as
  the world the first call ended in.
\<close>

theorem best_key_idempotent:
  assumes "dbus_keyring_get_best_key kr w = (Inr i, kr1, w1)"
    and "get_current_time w2 = get_current_time w1"
  shows "dbus_keyring_get_best_key kr1 w2 = (Inr i, kr1, w2)"
  using assms
  by (auto simp: dbus_keyring_get_best_key_def find_recent_key_def
        split: option.splits prod.splits sum.splits)

lemma minting_best_key:
  "dbus_keyring_get_best_key example_keyring minting_world =
     (Inr 1, example_keyring\<lparr>keys := [minted_key]\<rparr>,
      snd (snd (dbus_keyring_reload example_keyring True minting_world)))"
proof -
  have c: "clock_ms minting_world = 1000000" "keys example_keyring = []"
    by (simp_all add: minting_world_def example_keyring_def)
  show ?thesis
    by (simp add: dbus_keyring_get_best_key_def find_recent_key_def minting_reload
          get_current_time_def c minted_key_def NEW_KEY_TIMEOUT_SECONDS_def)
qed

text \<open>
  The first call mints key 1 (lock, save, unlock); the second, in the world the first
  left, returns 1 again and leaves that world as it is.
\<close>

theorem best_key_idempotent_witness:
  "fst (dbus_keyring_get_best_key example_keyring minting_world) = Inr 1 \<and>
   dbus_keyring_get_best_key (example_keyring\<lparr>keys := [minted_key]\<rparr>)
       (snd (snd (dbus_keyring_get_best_key example_keyring minting_world)))
     = (Inr 1, example_keyring\<lparr>keys := [minted_key]\<rparr>,
        snd (snd (dbus_keyring_get_best_key example_keyring minting_world)))"
  using best_key_idempotent[OF minting_best_key refl]
  by (simp add: minting_best_key)


section \<open>The text of the key file\<close>

subsection \<open>Numbers and hex digits read back\<close>

lemma below_10: "(d::nat) < 10 \<Longrightarrow> d = 0 \<or> d = 1 \<or> d = 2 \<or> d = 3 \<or> d = 4 \<or> d = 5 \<or> d = 6 \<or> d = 7 \<or> d = 8 \<or> d = 9"
  by arith

lemma below_16: "(d::nat) < 16 \<Longrightarrow> d < 10 \<or> d = 10 \<or> d = 11 \<or> d = 12 \<or> d = 13 \<or> d = 14 \<or> d = 15"
  by arith

lemma digit_char_props:
  assumes "d < 10"
  shows "is_digit (digit_char d)" and "digit_val (digit_char d) = d"
    and "\<not> is_blank (digit_char d)" and "digit_char d \<noteq> CHR 0x0A"
    and "digit_char d \<noteq> CHR ''-''" and "digit_char d \<noteq> CHR ''+''"
  using below_10[OF assms]
  by (auto simp: digit_char_def is_digit_def digit_val_def is_blank_def)

lemma dec_digits_props:
  "dec_digits n \<noteq> [] \<and> (\<forall>c\<in>set (dec_digits n). is_digit c) \<and> digits_val (dec_digits n) = n"
proof (induction n rule: dec_digits.induct)
  case (1 n)
  show ?case
  proof (cases "n < 10")
    case True
    then show ?thesis
      by (subst (1 2 3) dec_digits.simps) (simp add: digit_char_props digits_val_def)
  next
    case False
    have m: "n mod 10 < 10" by simp
    from False 1 have ih: "dec_digits (n div 10) \<noteq> []"
      "\<forall>c\<in>set (dec_digits (n div 10)). is_digit c" "digits_val (dec_digits (n div 10)) = n div 10"
      by simp_all
    have e: "dec_digits n = dec_digits (n div 10) @ [digit_char (n mod 10)]"
      using False by (subst dec_digits.simps) simp
    have "digits_val (dec_digits n) = 10 * (n div 10) + n mod 10"
      using ih(3) by (simp add: e digits_val_def digit_char_props(2)[OF m])
    then show ?thesis using ih(2) by (simp add: e digit_char_props(1)[OF m])
  qed
qed

lemma is_digit_not_special:
  "is_digit c \<Longrightarrow> \<not> is_blank c \<and> c \<noteq> CHR 0x0A \<and> c \<noteq> CHR ''-'' \<and> c \<noteq> CHR ''+''"
  by (auto simp: is_digit_def is_blank_def)

lemma is_digit_ascii: "is_digit c \<Longrightarrow> 0 < (of_char c :: nat) \<and> (of_char c :: nat) < 128"
  by (auto simp: is_digit_def)

lemma takeWhile_prefix:
  "\<forall>x\<in>set xs. P x \<Longrightarrow> ys = [] \<or> \<not> P (hd ys) \<Longrightarrow> takeWhile P (xs @ ys) = xs"
  by (cases ys) (simp_all add: takeWhile_append2)

lemma dropWhile_prefix:
  "\<forall>x\<in>set xs. P x \<Longrightarrow> ys = [] \<or> \<not> P (hd ys) \<Longrightarrow> dropWhile P (xs @ ys) = ys"
  by (cases ys) (simp_all add: dropWhile_append2)

text \<open>What the parser reads back from a printed number, wherever it stands in a line.\<close>

lemma parse_int_show_int:
  assumes "rest = [] \<or> \<not> is_digit (hd rest)"
  shows "parse_int (pre @ show_int v @ rest) (length pre) = Some (v, length pre + length (show_int v))"
proof (cases "v < 0")
  case True
  let ?ds = "dec_digits (nat (- v))"
  have tw: "takeWhile is_digit (?ds @ rest) = ?ds"
    using assms dec_digits_props[of "nat (- v)"] by (intro takeWhile_prefix) auto
  have "digits_val ?ds = nat (- v)" "?ds \<noteq> []"
    using dec_digits_props[of "nat (- v)"] by auto
  with True tw show ?thesis
    by (simp add: parse_int_def show_int_def)
next
  case False
  let ?ds = "dec_digits (nat v)"
  have p: "?ds \<noteq> []" "\<forall>c\<in>set ?ds. is_digit c" "digits_val ?ds = nat v"
    using dec_digits_props[of "nat v"] by auto
  have tw: "takeWhile is_digit (?ds @ rest) = ?ds"
    using assms p by (intro takeWhile_prefix) auto
  obtain c cs where cs: "?ds = c # cs" using p(1) by (cases ?ds) auto
  with p(2) have "is_digit c" by simp
  then have ns: "c \<noteq> CHR ''-''" "c \<noteq> CHR ''+''" using is_digit_not_special by auto
  have tw': "takeWhile is_digit (c # cs @ rest) = c # cs"
    using tw cs by simp
  show ?thesis using False p(3) ns
    by (simp add: parse_int_def show_int_def cs tw' del: takeWhile.simps)
qed

lemma skip_blank_one:
  "\<not> is_blank c \<Longrightarrow> skip_blank (pre @ CHR '' '' # c # rest) (length pre) = Suc (length pre)"
  by (simp add: skip_blank_def is_blank_def)

lemma hex_digit_props:
  assumes "n < 16"
  shows "hex_val (hex_digit n) = Some n" and "\<not> is_blank (hex_digit n)"
    and "hex_digit n \<noteq> CHR 0x0A"
    and "0 < (of_char (hex_digit n) :: nat) \<and> (of_char (hex_digit n) :: nat) < 128"
  using below_16[OF assms] 
  by (auto simp: hex_digit_def hex_val_def is_blank_def dest!: below_10)

lemma byte_nibbles: "unat (b :: byte) div 16 < 16" "unat b mod 16 < 16"
  using unsigned_less[of b, where 'a = nat] by simp_all

lemma byte_of_nibbles: "(word_of_nat (16 * (unat b div 16) + unat b mod 16) :: byte) = b"
  by simp

lemma hex_decode_encode: "hex_decode_chars (hex_encode bs) = Some bs"
  by (induction bs) (simp_all add: hex_encode_def hex_digit_props(1) byte_nibbles)

lemma hex_encode_chars:
  "c \<in> set (hex_encode bs) \<Longrightarrow> \<not> is_blank c \<and> c \<noteq> CHR 0x0A \<and> 0 < (of_char c :: nat) \<and> (of_char c :: nat) < 128"
  using hex_digit_props(2,3,4) byte_nibbles by (auto simp: hex_encode_def)

lemma hex_encode_empty: "hex_encode bs = [] \<longleftrightarrow> bs = []"
  by (cases bs) (simp_all add: hex_encode_def)

lemma pop_line_newline:
  "CHR 0x0A \<notin> set line \<Longrightarrow> pop_line (line @ CHR 0x0A # rest) = Some (line, rest)"
proof -
  assume n: "CHR 0x0A \<notin> set line"
  have "takeWhile (\<lambda>c. c \<noteq> CHR 0x0A) (line @ CHR 0x0A # rest) = line"
    using n by (intro takeWhile_prefix) auto
  moreover have "dropWhile (\<lambda>c. c \<noteq> CHR 0x0A) (line @ CHR 0x0A # rest) = CHR 0x0A # rest"
    using n by (intro dropWhile_prefix) auto
  ultimately show ?thesis by (simp add: pop_line_def)
qed

subsection \<open>One key, one line\<close>

lemma show_int_head: "\<exists>c cs. show_int v = c # cs \<and> \<not> is_blank c"
proof (cases "v < 0")
  case True
  then show ?thesis by (simp add: show_int_def is_blank_def)
next
  case False
  obtain c cs where cs: "dec_digits (nat v) = c # cs"
    using dec_digits_props[of "nat v"] by (cases "dec_digits (nat v)") auto
  with dec_digits_props[of "nat v"] have "is_digit c" by simp
  with cs False show ?thesis using is_digit_not_special by (simp add: show_int_def)
qed

lemma show_int_chars:
  "c \<in> set (show_int v) \<Longrightarrow> c \<noteq> CHR 0x0A \<and> 0 < (of_char c :: nat) \<and> (of_char c :: nat) < 128"
  using dec_digits_props is_digit_not_special is_digit_ascii
  by (auto simp: show_int_def split: if_splits)

lemma parse_key_line_fields:
  assumes a: "0 \<le> a" "a \<le> DBUS_INT_MAX"
    and t: "0 \<le> t" "t \<le> now + MAX_TIME_TRAVEL_SECONDS" "now - EXPIRE_KEYS_TIMEOUT_SECONDS \<le> t"
    and h: "hx = h # hs" "\<not> is_blank h"
  shows "parse_key_line now (show_int a @ CHR '' '' # show_int t @ CHR '' '' # hx) =
           Some (word_of_int a, t, Suc (Suc (length (show_int a) + length (show_int t))))"
proof -
  let ?A = "show_int a" and ?B = "show_int t"
  define line where "line = ?A @ CHR '' '' # ?B @ CHR '' '' # hx"
  obtain b bs where b: "?B = b # bs" "\<not> is_blank b" using show_int_head by blast
  have nb: "\<not> is_digit (CHR '' '')" by (simp add: is_digit_def)
  have p1: "parse_int line 0 = Some (a, length ?A)"
    using parse_int_show_int[of "CHR '' '' # ?B @ CHR '' '' # hx" "[]" a] nb
    by (simp add: line_def)
  have s1: "skip_blank line (length ?A) = Suc (length ?A)"
    using skip_blank_one[of b ?A "bs @ CHR '' '' # hx"] b by (simp add: line_def)
  have p2: "parse_int line (Suc (length ?A)) = Some (t, Suc (length ?A + length ?B))"
    using parse_int_show_int[of "CHR '' '' # hx" "?A @ [CHR '' '']" t] nb
    by (simp add: line_def)
  have s2: "skip_blank line (Suc (length ?A + length ?B)) = Suc (Suc (length ?A + length ?B))"
    using skip_blank_one[of h "?A @ CHR '' '' # ?B" hs] h by (simp add: line_def)
  have len: "length line = Suc (Suc (length ?A + length ?B)) + Suc (length hs)"
    using h by (simp add: line_def)
  have "parse_key_line now line =
          Some (word_of_int a, t, Suc (Suc (length (show_int a) + length (show_int t))))"
    using a t by (simp add: parse_key_line_def p1 s1 p2 s2 len)
  then show ?thesis by (simp add: line_def)
qed

lemma key_line_parse:
  assumes "0 \<le> sint (key_id k)" "secret k \<noteq> []" "0 \<le> creation_time k"
    "creation_time k \<le> now + MAX_TIME_TRAVEL_SECONDS" "now - EXPIRE_KEYS_TIMEOUT_SECONDS \<le> creation_time k"
  shows "parse_key_line now (key_line k) =
           Some (key_id k, creation_time k,
                 Suc (Suc (length (show_int (sint (key_id k))) + length (show_int (creation_time k)))))"
proof -
  obtain h hs where h: "hex_encode (secret k) = h # hs"
    using assms(2) hex_encode_empty[of "secret k"] by (cases "hex_encode (secret k)") auto
  then have "h \<in> set (hex_encode (secret k))" by simp
  then have nb: "\<not> is_blank h" using hex_encode_chars by blast
  have "sint (key_id k) \<le> DBUS_INT_MAX"
    using sint_lt[of "key_id k"] by (simp add: DBUS_INT_MAX_def)
  from parse_key_line_fields[OF assms(1) this assms(3,4,5) h nb]
  show ?thesis by (simp add: key_line_def)
qed

lemma key_line_secret:
  "drop (Suc (Suc (length (show_int (sint (key_id k))) + length (show_int (creation_time k)))))
      (key_line k) = hex_encode (secret k)"
  by (simp add: key_line_def)

lemma key_line_chars:
  "c \<in> set (key_line k) \<Longrightarrow> c \<noteq> CHR 0x0A \<and> 0 < (of_char c :: nat) \<and> (of_char c :: nat) < 128"
  using show_int_chars hex_encode_chars by (auto simp: key_line_def)

lemma load_line_key_line:
  assumes "0 \<le> sint (key_id k)" "secret k \<noteq> []" "0 \<le> creation_time k"
    "creation_time k \<le> now + MAX_TIME_TRAVEL_SECONDS" "now - EXPIRE_KEYS_TIMEOUT_SECONDS \<le> creation_time k"
    and "allocs w = True # True # True # as"
  shows "load_line now (key_line k) ks w = (Inr (ks @ [k]), w\<lparr>allocs := as\<rparr>)"
  using assms(6)
  by (simp add: load_line_def key_line_parse[OF assms(1-5)] alloc_def string_hex_decode_def
        key_line_secret hex_decode_encode)

lemma load_keys_encode_text:
  assumes "\<forall>k\<in>set ks. 0 \<le> sint (key_id k) \<and> secret k \<noteq> [] \<and> 0 \<le> creation_time k \<and>
              creation_time k \<le> now + MAX_TIME_TRAVEL_SECONDS \<and>
              now - EXPIRE_KEYS_TIMEOUT_SECONDS \<le> creation_time k"
    and "allocs w = replicate (3 * length ks) True @ as"
  shows "load_keys now (encode_text ks) acc w = (Inr (acc @ ks), w\<lparr>allocs := as\<rparr>)"
  using assms
proof (induction ks arbitrary: acc w)
  case Nil
  then have "w\<lparr>allocs := as\<rparr> = w" by simp
  then show ?case by (simp add: encode_text_def load_keys.simps pop_line_def)
next
  case (Cons k ks)
  have nl: "CHR 0x0A \<notin> set (key_line k)" using key_line_chars by blast
  have pl: "pop_line (encode_text (k # ks)) = Some (key_line k, encode_text ks)"
    using pop_line_newline[OF nl, of "encode_text ks"] by (simp add: encode_text_def)
  have al: "allocs w = True # True # True # replicate (3 * length ks) True @ as"
    using Cons.prems(2) by (simp add: numeral_3_eq_3)
  have ll: "load_line now (key_line k) acc w
              = (Inr (acc @ [k]), w\<lparr>allocs := replicate (3 * length ks) True @ as\<rparr>)"
    using Cons.prems(1) by (intro load_line_key_line al) auto
  have "load_keys now (encode_text ks) (acc @ [k]) (w\<lparr>allocs := replicate (3 * length ks) True @ as\<rparr>)
          = (Inr ((acc @ [k]) @ ks), w\<lparr>allocs := replicate (3 * length ks) True @ as\<rparr>\<lparr>allocs := as\<rparr>)"
    using Cons.prems(1) by (intro Cons.IH) auto
  then show ?case
    by (subst load_keys.simps) (simp add: pl ll)
qed

text \<open>What the encoder writes when memory suffices.\<close>

lemma string_append_Some:
  "string_append str t w = (Some c, w1) \<Longrightarrow> c = str @ t"
  by (auto simp: string_append_def split: prod.splits if_splits)

lemma encode_key_Some:
  assumes "encode_key k contents w = (Some c, w1)"
  shows "c = contents @ key_line k @ [CHR 0x0A]"
  using assms
  unfolding encode_key_def and_then_def string_append_int_def string_append_byte_def
    string_hex_encode_def
  by (auto simp: key_line_def dest!: string_append_Some split: prod.splits option.splits)

lemma encode_keys_Some:
  "encode_keys ks contents w = (Some c, w1) \<Longrightarrow> c = contents @ encode_text ks"
proof (induction ks arbitrary: contents w)
  case Nil
  then show ?case by (simp add: encode_text_def)
next
  case (Cons k ks)
  obtain r w2 where e: "encode_key k contents w = (r, w2)" by (cases "encode_key k contents w")
  with Cons.prems obtain c1 where c1: "r = Some c1" "encode_keys ks c1 w2 = (Some c, w1)"
    by (cases r) auto
  from encode_key_Some[OF e[unfolded c1(1)]] Cons.IH[OF c1(2)]
  show ?case by (simp add: encode_text_def)
qed

lemma encode_text_ascii: "validate_ascii (encode_text ks)"
  using key_line_chars by (auto simp: validate_ascii_def encode_text_def list_all_iff)


text \<open>
  C1, as the code has it. The decoding loop filters while it decodes, so the round trip
  holds for the keys that pass its checks: if every key of the list has an id that is not
  negative, a secret that is not empty, and a creation time \<open>t\<close> with \<open>0 \<le> t\<close> and
  \<open>now - 420 \<le> t \<le> now + 300\<close> at the time \<open>now\<close> of the decoding, then the text that
  the encoding loop writes for the list (id, space, creation time, space, hex of the
  secret, newline, per key) is ASCII, and the decoding loop run on it with enough memory
  (three allocations a key) gives the same keys in the same order: ids, creation times
  and secret bytes.
\<close>

theorem codec_round_trip:
  assumes "\<forall>k\<in>set ks. 0 \<le> sint (key_id k) \<and> secret k \<noteq> [] \<and> 0 \<le> creation_time k \<and>
              now - 420 \<le> creation_time k \<and> creation_time k \<le> now + 300"
    and "encode_keys ks [] w = (Some contents, w1)"
    and "allocs w2 = replicate (3 * length ks) True @ as"
  shows "validate_ascii contents \<and> fst (load_keys now contents [] w2) = Inr ks"
proof -
  have c: "contents = encode_text ks" using encode_keys_Some[OF assms(2)] by simp
  have "\<forall>k\<in>set ks. 0 \<le> sint (key_id k) \<and> secret k \<noteq> [] \<and> 0 \<le> creation_time k \<and>
              creation_time k \<le> now + MAX_TIME_TRAVEL_SECONDS \<and>
              now - EXPIRE_KEYS_TIMEOUT_SECONDS \<le> creation_time k"
    using assms(1)
    by (simp add: MAX_TIME_TRAVEL_SECONDS_def EXPIRE_KEYS_TIMEOUT_SECONDS_def NEW_KEY_TIMEOUT_SECONDS_def)
  from load_keys_encode_text[OF this assms(3), of "[]"] show ?thesis
    by (simp add: c encode_text_ascii)
qed

lemma encode_two_keys:
  "encode_keys two_keys [] minting_world =
     (Some (''5 1000 ab'' @ [CHR 0x0A] @ ''7 990 0102'' @ [CHR 0x0A]), minting_world\<lparr>allocs := []\<rparr>)"
  by (simp add: two_keys_def minting_world_def encode_key_def and_then_def string_append_int_def
        string_append_byte_def string_hex_encode_def string_append_def alloc_def show_eval)

theorem codec_round_trip_witness:
  "validate_ascii (''5 1000 ab'' @ [CHR 0x0A] @ ''7 990 0102'' @ [CHR 0x0A]) \<and>
   fst (load_keys 1000 (''5 1000 ab'' @ [CHR 0x0A] @ ''7 990 0102'' @ [CHR 0x0A]) [] minting_world)
     = Inr two_keys"
proof -
  have v: "\<forall>k\<in>set two_keys. 0 \<le> sint (key_id k) \<and> secret k \<noteq> [] \<and> 0 \<le> creation_time k \<and>
              1000 - 420 \<le> creation_time k \<and> creation_time k \<le> 1000 + 300"
    by (simp add: two_keys_def)
  have a: "allocs minting_world = replicate (3 * length two_keys) True @ [True, True, True, True, True, True]"
    by (simp add: minting_world_def two_keys_def numeral_eq_Suc)
  from codec_round_trip[OF v encode_two_keys a] show ?thesis .
qed

text \<open>
  C1 as stated, for every list of keys, fails: a key with an empty secret is written as
  a line without a secret, which the decoder skips; a key made at time 1000 is dropped
  by a decoding at time 2000, when it has expired; and a key with a negative id is
  written with its sign and skipped by the decoder.
\<close>

theorem codec_round_trip_counterexample:
  "fst (encode_keys [\<lparr>key_id = 5, creation_time = 1000, secret = []\<rparr>] [] minting_world)
     = Some (''5 1000 '' @ [CHR 0x0A]) \<and>
   fst (load_keys 1000 (''5 1000 '' @ [CHR 0x0A]) [] minting_world) = Inr [] \<and>
   fst (encode_keys [\<lparr>key_id = 5, creation_time = 1000, secret = [0xAB]\<rparr>] [] minting_world)
     = Some (''5 1000 ab'' @ [CHR 0x0A]) \<and>
   fst (load_keys 2000 (''5 1000 ab'' @ [CHR 0x0A]) [] minting_world) = Inr [] \<and>
   fst (encode_keys [\<lparr>key_id = - 1, creation_time = 1000, secret = [0xAB]\<rparr>] [] minting_world)
     = Some (''-1 1000 ab'' @ [CHR 0x0A]) \<and>
   fst (load_keys 1000 (''-1 1000 ab'' @ [CHR 0x0A]) [] minting_world) = Inr []"
  by (simp add: minting_world_def encode_key_def and_then_def string_append_int_def
        string_append_byte_def string_hex_encode_def string_append_def alloc_def show_eval
        load_keys.simps pop_line_def load_line_def parse_eval)

section \<open>A secret that is not hex\<close>

subsection \<open>What a reload reads\<close>

lemma alloc_reads: "alloc w = (ok, w1) \<Longrightarrow> data_file w1 = data_file w \<and> clock_ms w1 = clock_ms w"
  by (auto simp: alloc_def split: prod.splits)

lemma lock_loop_data_file: "lock_loop kr n w = (m, w1) \<Longrightarrow> data_file w1 = data_file w"
proof (induction kr n w rule: lock_loop.induct)
  case (1 kr n w)
  show ?case
  proof (cases "n < MAX_LOCK_TIMEOUTS")
    case False
    with 1(2) show ?thesis by (simp add: lock_loop.simps[of kr n w])
  next
    case True
    obtain ok w2 where c: "create_file_exclusively (filename_lock kr) w = (ok, w2)"
      by (cases "create_file_exclusively (filename_lock kr) w")
    then have d2: "data_file w2 = data_file w"
      by (auto simp: create_file_exclusively_def split: prod.splits)
    show ?thesis
    proof (cases ok)
      case True
      with \<open>n < MAX_LOCK_TIMEOUTS\<close> 1(2) c d2 show ?thesis
        by (simp add: lock_loop.simps[of kr n w])
    next
      case False
      with \<open>n < MAX_LOCK_TIMEOUTS\<close> 1(2) c
      have "lock_loop kr (Suc n) (sleep_milliseconds LOCK_TIMEOUT_MILLISECONDS w2) = (m, w1)"
        by (simp add: lock_loop.simps[of kr n w])
      from 1(1)[OF \<open>n < MAX_LOCK_TIMEOUTS\<close> refl c[symmetric] False this] d2
      show ?thesis by (simp add: sleep_milliseconds_def)
    qed
  qed
qed

lemma dbus_keyring_lock_data_file:
  "dbus_keyring_lock kr w = (locked, w1) \<Longrightarrow> data_file w1 = data_file w"
  by (auto simp: dbus_keyring_lock_def delete_file_def create_file_exclusively_def
        dest!: lock_loop_data_file split: prod.splits if_splits)

lemma read_contents_cong: "data_file w1 = data_file w \<Longrightarrow> read_contents w1 = read_contents w"
  by (simp add: read_contents_def file_get_contents_def)

subsection \<open>The data file is only read\<close>











subsection \<open>The failed decoding ends the reload\<close>

lemma load_line_hex_failure:
  assumes "parse_key_line now line = Some (i, ts, nx)" and "hex_decode_chars (drop nx line) = None"
  shows "fst (load_line now line ks w) = Inl NoMemory"
  using assms
  by (auto simp: load_line_def string_hex_decode_def split: prod.splits)

lemma load_line_error: "load_line now line ks w = (Inl e, w1) \<Longrightarrow> e = NoMemory"
  by (auto simp: load_line_def string_hex_decode_def split: option.splits prod.splits if_splits)

lemma load_keys_bad_line:
  "line \<in> set (split_lines contents) \<Longrightarrow> parse_key_line now line = Some (i, ts, nx) \<Longrightarrow>
   hex_decode_chars (drop nx line) = None \<Longrightarrow> fst (load_keys now contents ks w) = Inl NoMemory"
proof (induction now contents ks w rule: load_keys.induct)
  case (1 now contents ks w)
  show ?case
  proof (cases "pop_line contents")
    case None
    with 1(2) show ?thesis by (simp add: split_lines.simps[of contents])
  next
    case (Some p)
    obtain l rest where p: "p = (l, rest)" by (cases p)
    obtain r1 w2 where ll: "load_line now l ks w = (r1, w2)" by (cases "load_line now l ks w")
    from 1(2) Some p have mem: "line = l \<or> line \<in> set (split_lines rest)"
      by (simp add: split_lines.simps[of contents])
    show ?thesis
    proof (cases r1)
      case (Inl e)
      with ll load_line_error have "e = NoMemory" by blast
      with Inl ll Some p show ?thesis by (simp add: load_keys.simps[of now contents])
    next
      case (Inr ks1)
      have "line \<noteq> l"
        using load_line_hex_failure[OF 1(3,4), of ks w] ll Inr by auto
      with mem have "line \<in> set (split_lines rest)" by simp
      from 1(1)[OF Some p[symmetric] ll[symmetric] Inr this 1(3,4)] Some p ll Inr
      show ?thesis by (simp add: load_keys.simps[of now contents])
    qed
  qed
qed

lemma reload_keys_bad_line:
  assumes "line \<in> set (split_lines (read_contents w))"
    and "parse_key_line now line = Some (i, ts, nx)" and "hex_decode_chars (drop nx line) = None"
  shows "fst (reload_keys kr add_new now w) = Inl NoMemory"
  using load_keys_bad_line[OF assms, of "[]" w]
  by (auto simp: reload_keys_def split: prod.splits sum.splits)

lemma reload_out_Inl: "fst r = Inl e \<Longrightarrow> fst (reload_out kr have_lock r) = Inl e"
  by (cases r) (auto simp: reload_out_def)

lemma reload_bad_line:
  assumes "line \<in> set (split_lines (read_contents w))"
    and "parse_key_line (get_current_time w) line = Some (i, ts, nx)"
    and "hex_decode_chars (drop nx line) = None"
  shows "\<exists>e. fst (dbus_keyring_reload kr add_new w) = Inl e"
proof -
  obtain ok1 wa where a1: "alloc w = (ok1, wa)" by (cases "alloc w")
  obtain ok2 wb where a2: "alloc wa = (ok2, wb)" by (cases "alloc wa")
  obtain locked wc where lk: "dbus_keyring_lock kr wb = (locked, wc)"
    by (cases "dbus_keyring_lock kr wb")
  have db: "data_file wb = data_file w" "get_current_time wb = get_current_time w"
    using alloc_reads[OF a1] alloc_reads[OF a2] by (simp_all add: get_current_time_def)
  have dc: "data_file wc = data_file w"
    using dbus_keyring_lock_data_file[OF lk] db by simp
  have rb: "fst (reload_keys kr add_new (get_current_time wb) wb) = Inl NoMemory"
    using assms db read_contents_cong[OF db(1)] by (intro reload_keys_bad_line) auto
  have rc: "fst (reload_keys kr add_new (get_current_time wb) wc) = Inl NoMemory"
    using assms db read_contents_cong[OF dc] by (intro reload_keys_bad_line) auto
  show ?thesis
    using a1 a2 lk reload_out_Inl[OF rb, of kr False] reload_out_Inl[OF rc, of kr True]
      reload_out_Inl[of "(Inl Failed, wc)" Failed kr False]
    by (auto simp: dbus_keyring_reload_def Let_def)
qed
















section \<open>Distinct ids\<close>



lemma find_key_by_id_None: "(find_key_by_id ks i = None) = (i \<notin> key_id ` set ks)"
  by (induction ks) auto

lemma generate_id_fresh: "generate_id ks w = (Inr i, w1) \<Longrightarrow> i \<notin> key_id ` set ks"
proof (induction ks w rule: generate_id.induct)
  case (1 ks w)
  obtain b w2 where g: "generate_random_bytes 4 w = (b, w2)" by (cases "generate_random_bytes 4 w")
  show ?case
  proof (cases b)
    case None
    with 1(2) g show ?thesis by (simp add: generate_id.simps[of ks w])
  next
    case (Some s)
    show ?thesis
    proof (cases "0 \<le> sint (new_key_id s) \<and> find_key_by_id ks (new_key_id s) \<noteq> None")
      case True
      with 1(2) g Some have "generate_id ks w2 = (Inr i, w1)"
        by (simp add: generate_id.simps[of ks w] Let_def)
      with 1(1)[OF g[symmetric] Some refl _ _] True show ?thesis by simp
    next
      case False
      with 1(2) g Some show ?thesis
        by (auto simp: generate_id.simps[of ks w] Let_def find_key_by_id_None split: if_splits)
    qed
  qed
qed

lemma add_new_key_fresh:
  "add_new_key ks w = (Inr ks', w1) \<Longrightarrow> \<exists>k. ks' = ks @ [k] \<and> key_id k \<notin> key_id ` set ks"
  by (auto simp: add_new_key_def Let_def dest!: generate_id_fresh
        split: prod.splits sum.splits option.splits if_splits)
















section \<open>The expiry filter\<close>

subsection \<open>The keys a reload loads\<close>

lemma loaded_keys_append: "loaded_keys now (xs @ ys) = loaded_keys now xs @ loaded_keys now ys"
  by (induction xs) (simp_all add: loaded_keys_def List.map_filter_simps split: option.splits)

lemma loaded_keys_Cons:
  "loaded_keys now (l # ls) = (case line_key now l of None \<Rightarrow> [] | Some k \<Rightarrow> [k]) @ loaded_keys now ls"
  by (simp add: loaded_keys_def List.map_filter_simps split: option.splits)

lemma load_line_result:
  "load_line now line ks w = (Inr ks1, w1) \<Longrightarrow> ks1 = ks @ loaded_keys now [line]"
  by (auto simp: load_line_def loaded_keys_def line_key_def List.map_filter_simps
        string_hex_decode_def split: option.splits prod.splits if_splits)

lemma load_keys_result:
  "load_keys now contents ks w = (Inr ks', w1) \<Longrightarrow>
   ks' = ks @ loaded_keys now (split_lines contents)"
proof (induction now contents ks w rule: load_keys.induct)
  case (1 now contents ks w)
  show ?case
  proof (cases "pop_line contents")
    case None
    with 1(2) show ?thesis
      by (simp add: load_keys.simps[of now contents] split_lines.simps[of contents]
            loaded_keys_def List.map_filter_simps)
  next
    case (Some p)
    obtain line rest where p: "p = (line, rest)" by (cases p)
    obtain r1 w2 where ll: "load_line now line ks w = (r1, w2)" by (cases "load_line now line ks w")
    show ?thesis
    proof (cases r1)
      case (Inl e)
      with 1(2) Some p ll show ?thesis by (simp add: load_keys.simps[of now contents])
    next
      case (Inr ks1)
      with 1(2) Some p ll have "load_keys now rest ks1 w2 = (Inr ks', w1)"
        by (simp add: load_keys.simps[of now contents])
      from 1(1)[OF Some p[symmetric] ll[symmetric] Inr this] load_line_result[OF ll[unfolded Inr]]
      have "ks' = ks @ loaded_keys now (line # split_lines rest)"
        using loaded_keys_append[of now "[line]" "split_lines rest"] by simp
      with Some p show ?thesis by (simp add: split_lines.simps[of contents])
    qed
  qed
qed

lemma reload_keys_result:
  assumes "reload_keys kr add_new now w = (Inr ks, w1)"
  shows "(if add_new then butlast ks else ks) = loaded_keys now (split_lines (read_contents w))"
proof -
  obtain r wa where l: "load_keys now (read_contents w) [] w = (r, wa)"
    by (cases "load_keys now (read_contents w) [] w")
  with assms obtain ks0 where r: "r = Inr ks0"
    by (cases r) (auto simp: reload_keys_def)
  from load_keys_result[OF l[unfolded r]]
  have k0: "ks0 = loaded_keys now (split_lines (read_contents w))" by simp
  show ?thesis
  proof (cases add_new)
    case False
    with assms l r k0 show ?thesis by (simp add: reload_keys_def)
  next
    case True
    with assms l r obtain wb where "add_new_key ks0 wa = (Inr ks, wb)"
      by (auto simp: reload_keys_def Let_def split: prod.splits sum.splits option.splits if_splits)
    from add_new_key_fresh[OF this] k0 True show ?thesis by auto
  qed
qed

lemma reload_result:
  assumes "dbus_keyring_reload kr add_new w = (Inr u, kr1, w1)"
  shows "(if add_new then butlast (keys kr1) else keys kr1)
           = loaded_keys (get_current_time w) (split_lines (read_contents w))"
proof -
  obtain ok1 wa where a1: "alloc w = (ok1, wa)" by (cases "alloc w")
  obtain ok2 wb where a2: "alloc wa = (ok2, wb)" by (cases "alloc wa")
  obtain locked wc where lk: "dbus_keyring_lock kr wb = (locked, wc)"
    by (cases "dbus_keyring_lock kr wb")
  have db: "data_file wb = data_file w" "get_current_time wb = get_current_time w"
    using alloc_reads[OF a1] alloc_reads[OF a2] by (simp_all add: get_current_time_def)
  have dc: "data_file wc = data_file w"
    using dbus_keyring_lock_data_file[OF lk] db by simp
  show ?thesis
  proof (cases add_new)
    case False
    with assms a1 a2 obtain wd where
      "reload_keys kr add_new (get_current_time wb) wb = (Inr (keys kr1), wd)"
      by (auto simp: dbus_keyring_reload_def reload_out_def Let_def
            split: if_splits prod.splits sum.splits)
    from reload_keys_result[OF this] db read_contents_cong[OF db(1)]
    show ?thesis by simp
  next
    case True
    with assms a1 a2 lk obtain wd where
      "reload_keys kr add_new (get_current_time wb) wc = (Inr (keys kr1), wd)"
      by (auto simp: dbus_keyring_reload_def reload_out_def Let_def
            split: if_splits prod.splits sum.splits)
    from reload_keys_result[OF this] db read_contents_cong[OF dc]
    show ?thesis by simp
  qed
qed

lemma parse_key_line_expiry:
  assumes "parse_int line 0 = Some (v, n1)" and "0 \<le> v" and "v \<le> DBUS_INT_MAX"
    and "parse_int line (skip_blank line n1) = Some (ts, n3)"
    and "skip_blank line n3 < length line"
  shows "parse_key_line now line =
           (if ts < 0 \<or> now + 300 < ts \<or> ts < now - 420 then None
            else Some (word_of_int v, ts, skip_blank line n3))"
  using assms
  by (auto simp: parse_key_line_def Let_def MAX_TIME_TRAVEL_SECONDS_def
        EXPIRE_KEYS_TIMEOUT_SECONDS_def NEW_KEY_TIMEOUT_SECONDS_def)

text \<open>
  C4, as the code has it. A reload that returns success has captured \<open>now\<close> at its start.
  Take a line of the key file, at any place among its lines, that is otherwise well-formed
  (an id between 0 and \<^verbatim>\<open>INT_MAX\<close>, then a time stamp \<open>ts\<close>, then a secret). The keys the
  reload has loaded (the installed list, less the new key when \<^verbatim>\<open>add_new\<close>) are the keys
  of the lines before it, then nothing for this line exactly when \<open>ts\<close> is negative,
  greater than \<open>now + 300\<close> or less than \<open>now - 420\<close>, and else the key of this line
  (its id, \<open>ts\<close>, its decoded secret), then the keys of the lines after it. In particular
  a time stamp \<open>now - 419\<close> that is not negative leaves its key in the installed list, and
  the time stamps \<open>now - 421\<close> and \<open>now + 301\<close> leave none.
\<close>

theorem expiry_filter:
  assumes "dbus_keyring_reload kr add_new w = (Inr u, kr1, w1)"
    and "split_lines (read_contents w) = before @ line # after"
    and "parse_int line 0 = Some (v, n1)" and "0 \<le> v" and "v \<le> DBUS_INT_MAX"
    and "parse_int line (skip_blank line n1) = Some (ts, n3)"
    and "skip_blank line n3 < length line"
    and "now = get_current_time w"
  shows "\<exists>s. (if add_new then butlast (keys kr1) else keys kr1) =
               loaded_keys now before @
               (if ts < 0 \<or> now + 300 < ts \<or> ts < now - 420 then []
                else [\<lparr>key_id = word_of_int v, creation_time = ts, secret = s\<rparr>]) @
               loaded_keys now after \<and>
             (\<not> (ts < 0 \<or> now + 300 < ts \<or> ts < now - 420) \<longrightarrow>
                hex_decode_chars (drop (skip_blank line n3) line) = Some s) \<and>
             (ts = now - 419 \<and> 0 \<le> ts \<longrightarrow>
                \<lparr>key_id = word_of_int v, creation_time = ts, secret = s\<rparr> \<in> set (keys kr1)) \<and>
             (ts = now - 421 \<or> ts = now + 301 \<longrightarrow>
                (if add_new then butlast (keys kr1) else keys kr1) =
                  loaded_keys now before @ loaded_keys now after)"
proof -
  let ?expired = "ts < 0 \<or> now + 300 < ts \<or> ts < now - 420"
  let ?loaded = "if add_new then butlast (keys kr1) else keys kr1"
  have pk: "parse_key_line now line =
              (if ?expired then None else Some (word_of_int v, ts, skip_blank line n3))"
    by (rule parse_key_line_expiry[OF assms(3-7)])
  have l: "?loaded = loaded_keys now before @ loaded_keys now [line] @ loaded_keys now after"
    using reload_result[OF assms(1)] assms(2,8)
      loaded_keys_append[of now before "line # after"] loaded_keys_append[of now "[line]" after]
    by simp
  have sub: "set ?loaded \<subseteq> set (keys kr1)"
    by (auto dest: in_set_butlastD)
  show ?thesis
  proof (cases ?expired)
    case True
    then have "loaded_keys now [line] = []"
      by (simp add: loaded_keys_def List.map_filter_simps line_key_def pk)
    with l True show ?thesis by auto
  next
    case False
    have "hex_decode_chars (drop (skip_blank line n3) line) \<noteq> None"
    proof
      assume h: "hex_decode_chars (drop (skip_blank line n3) line) = None"
      have m: "line \<in> set (split_lines (read_contents w))" using assms(2) by simp
      have "parse_key_line (get_current_time w) line = Some (word_of_int v, ts, skip_blank line n3)"
        using pk False assms(8) by simp
      from reload_bad_line[OF m this h, of kr add_new] assms(1) show False by simp
    qed
    then obtain s where s: "hex_decode_chars (drop (skip_blank line n3) line) = Some s" by auto
    then have lk: "loaded_keys now [line] = [\<lparr>key_id = word_of_int v, creation_time = ts, secret = s\<rparr>]"
      using False by (simp add: loaded_keys_def List.map_filter_simps line_key_def pk)
    have eq: "?loaded = loaded_keys now before @
                 [\<lparr>key_id = word_of_int v, creation_time = ts, secret = s\<rparr>] @ loaded_keys now after"
      using l lk by simp
    then have "\<lparr>key_id = word_of_int v, creation_time = ts, secret = s\<rparr> \<in> set ?loaded"
      by simp
    with sub have mem: "\<lparr>key_id = word_of_int v, creation_time = ts, secret = s\<rparr> \<in> set (keys kr1)"
      by blast
    show ?thesis
      by (rule exI[of _ s]) (use False eq s mem in auto)
  qed
qed

lemma expiry_reload:
  "dbus_keyring_reload kr False expiry_world =
     (Inr (), kr\<lparr>keys := [\<lparr>key_id = 7, creation_time = 581, secret = [0x0A, 0xFF]\<rparr>]\<rparr>,
      expiry_world\<lparr>allocs := [True, True, True]\<rparr>)"
  by (simp add: dbus_keyring_reload_def expiry_world_def alloc_def get_current_time_def
        reload_out_def reload_keys_def read_contents_def file_get_contents_def validate_ascii_def
        load_keys.simps pop_line_def load_line_def parse_eval string_hex_decode_def hex_val_def)

lemma expiry_world_lines:
  "split_lines (read_contents expiry_world) = [''7 581 0aff'', ''8 579 0aff'', ''9 1301 0aff'']"
  "get_current_time expiry_world = 1000"
  by (simp_all add: read_contents_def file_get_contents_def expiry_world_def validate_ascii_def
        get_current_time_def split_lines.simps pop_line_def)

text \<open>
  At time 1000 the reload loads the key of the line with time stamp 581 (419 seconds back)
  and nothing for the lines with time stamps 579 (421 seconds back) and 1301 (301 seconds
  ahead): the theorem at each of the three lines of the file.
\<close>

theorem expiry_filter_witness:
  "dbus_keyring_reload example_keyring False expiry_world =
     (Inr (), example_keyring\<lparr>keys := [\<lparr>key_id = 7, creation_time = 581, secret = [0x0A, 0xFF]\<rparr>]\<rparr>,
      expiry_world\<lparr>allocs := [True, True, True]\<rparr>) \<and>
   hex_decode_chars (drop 6 ''7 581 0aff'') = Some [0x0A, 0xFF] \<and>
   loaded_keys 1000 [''8 579 0aff'', ''9 1301 0aff''] = [] \<and>
   loaded_keys 1000 [''7 581 0aff''] @ loaded_keys 1000 [''9 1301 0aff''] =
     [\<lparr>key_id = 7, creation_time = 581, secret = [0x0A, 0xFF]\<rparr>] \<and>
   loaded_keys 1000 [''7 581 0aff'', ''8 579 0aff''] =
     [\<lparr>key_id = 7, creation_time = 581, secret = [0x0A, 0xFF]\<rparr>]"
proof -
  have l1: "split_lines (read_contents expiry_world) = [] @ ''7 581 0aff'' # [''8 579 0aff'', ''9 1301 0aff'']"
    and l2: "split_lines (read_contents expiry_world) = [''7 581 0aff''] @ ''8 579 0aff'' # [''9 1301 0aff'']"
    and l3: "split_lines (read_contents expiry_world) = [''7 581 0aff'', ''8 579 0aff''] @ ''9 1301 0aff'' # []"
    by (simp_all add: expiry_world_lines)
  have t: "1000 = get_current_time expiry_world" by (simp add: expiry_world_lines)
  have a: "\<exists>s. [\<lparr>key_id = 7, creation_time = 581, secret = [0x0A, 0xFF]\<rparr>] =
             loaded_keys 1000 [] @ [\<lparr>key_id = 7, creation_time = 581, secret = s\<rparr>] @
             loaded_keys 1000 [''8 579 0aff'', ''9 1301 0aff''] \<and>
             hex_decode_chars (drop 6 ''7 581 0aff'') = Some s"
    using expiry_filter[OF expiry_reload l1 _ _ _ _ _ t, of 7 1 581 5 example_keyring]
    by (simp add: int_eval)
  have b: "[\<lparr>key_id = 7, creation_time = 581, secret = [0x0A, 0xFF]\<rparr>] =
             loaded_keys 1000 [''7 581 0aff''] @ loaded_keys 1000 [''9 1301 0aff'']"
    using expiry_filter[OF expiry_reload l2 _ _ _ _ _ t, of 8 1 579 5 example_keyring]
    by (simp add: int_eval)
  have c: "[\<lparr>key_id = 7, creation_time = 581, secret = [0x0A, 0xFF]\<rparr>] =
             loaded_keys 1000 [''7 581 0aff'', ''8 579 0aff''] @ loaded_keys 1000 []"
    using expiry_filter[OF expiry_reload l3 _ _ _ _ _ t, of 9 1 1301 6 example_keyring]
    by (simp add: int_eval)
  from a have "loaded_keys 1000 [''8 579 0aff'', ''9 1301 0aff''] = []"
    by (auto simp: loaded_keys_def List.map_filter_simps append_eq_Cons_conv)
  moreover from a have "hex_decode_chars (drop 6 ''7 581 0aff'') = Some [0x0A, 0xFF]"
    by (auto simp: loaded_keys_def List.map_filter_simps append_eq_Cons_conv)
  moreover from c have "loaded_keys 1000 [''7 581 0aff'', ''8 579 0aff''] =
     [\<lparr>key_id = 7, creation_time = 581, secret = [0x0A, 0xFF]\<rparr>]"
    by (simp add: loaded_keys_def List.map_filter_simps)
  ultimately show ?thesis using b by (simp add: expiry_reload)
qed

text \<open>
  C4 as stated fails for a clock before 419: at time 100 the time stamp \<open>now - 419\<close> is
  \<open>-319\<close>, and the reload drops the line, which is well-formed and has a secret that
  decodes.
\<close>

theorem expiry_filter_counterexample:
  "get_current_time early_world = 100 \<and>
   parse_int ''7 -319 0aff'' 0 = Some (7, 1) \<and>
   parse_int ''7 -319 0aff'' 2 = Some (100 - 419, 6) \<and>
   hex_decode_chars (drop 7 ''7 -319 0aff'') = Some [0x0A, 0xFF] \<and>
   dbus_keyring_reload example_keyring False early_world =
     (Inr (), example_keyring\<lparr>keys := []\<rparr>, early_world\<lparr>allocs := [True, True, True]\<rparr>)"
  by (simp add: early_world_def get_current_time_def int_eval hex_val_def
        dbus_keyring_reload_def alloc_def reload_out_def reload_keys_def read_contents_def
        file_get_contents_def validate_ascii_def load_keys.simps pop_line_def load_line_def
        parse_eval)

end
